theory Spec2Isabelle
  imports Complex_Main "HOL-Library.Log_Nat"
begin

section \<open>Python values and exceptions\<close>

text \<open>
  Every exception class that the modelled code and its collaborators raise is a subclass of
  Python's \<open>Exception\<close>. The operating system errors keep their errno kind and the path they
  are about (\<open>FileNotFoundError\<close> is \<open>OSError ENOENT\<close>, \<open>PermissionError\<close> is
  \<open>OSError EACCES\<close>, and so on).
\<close>

datatype os_err = ENOENT | EEXIST | ENOTDIR | EACCES | EISDIR

datatype exc =
    ValueError string
  | KeyError string
  | TypeError
  | AttributeError
  | OSError os_err string
  | KeyringError
  | PasswordDeleteError
  | PyiCloudFailedLoginException string
  | PyiCloudAPIResponseException string
  | OverflowError
  | ZeroDivisionError
  | OtherException string

section \<open>The credential store (keyring)\<close>

text \<open>
  The \<open>keyring\<close> module is a key-value store of secrets indexed by service name and key.
  A backend may fail on any call (\<open>kr_locked\<close>); deleting an entry that does not exist
  raises \<open>PasswordDeleteError\<close>.
\<close>

record keyring =
  kr_entries :: "string \<times> string \<rightharpoonup> string"
  kr_locked :: bool

definition get_password :: "keyring \<Rightarrow> string \<Rightarrow> string \<Rightarrow> exc + string option" where
  "get_password kr service key =
     (if kr_locked kr then Inl KeyringError else Inr (kr_entries kr (service, key)))"

definition set_password :: "keyring \<Rightarrow> string \<Rightarrow> string \<Rightarrow> string \<Rightarrow> exc + keyring" where
  "set_password kr service key v =
     (if kr_locked kr then Inl KeyringError
      else Inr (kr\<lparr>kr_entries := (kr_entries kr)((service, key) \<mapsto> v)\<rparr>))"

definition delete_password :: "keyring \<Rightarrow> string \<Rightarrow> string \<Rightarrow> exc + keyring" where
  "delete_password kr service key =
     (if kr_locked kr then Inl KeyringError
      else if kr_entries kr (service, key) = None then Inl PasswordDeleteError
      else Inr (kr\<lparr>kr_entries := (kr_entries kr)((service, key) := None)\<rparr>))"

definition empty_keyring :: keyring where
  "empty_keyring = \<lparr>kr_entries = Map.empty, kr_locked = False\<rparr>"

text \<open>Truthiness of a value of type \<open>str | None\<close>, and the expression \<open>v or ""\<close>.\<close>

definition truthy :: "string option \<Rightarrow> bool" where
  "truthy v = (case v of None \<Rightarrow> False | Some s \<Rightarrow> s \<noteq> [])"

definition or_empty :: "string option \<Rightarrow> string" where
  "or_empty v = (case v of None \<Rightarrow> [] | Some s \<Rightarrow> s)"

section \<open>Paths\<close>

text \<open>
  A \<open>pathlib\<close> path on a POSIX platform: the anchor (empty for a relative path, one or two
  slashes otherwise) and the components, with empty components and \<open>.\<close> dropped when the
  path is parsed.
\<close>

record path =
  anchor :: string
  parts :: "string list"

fun split_on :: "char \<Rightarrow> string \<Rightarrow> string list" where
  "split_on c [] = [[]]"
| "split_on c (x # xs) =
     (if x = c then [] # split_on c xs
      else (case split_on c xs of [] \<Rightarrow> [[x]] | w # ws \<Rightarrow> (x # w) # ws))"

fun join :: "string \<Rightarrow> string list \<Rightarrow> string" where
  "join sep [] = []"
| "join sep [x] = x"
| "join sep (x # y # ys) = x @ sep @ join sep (y # ys)"

definition Path :: "string \<Rightarrow> path" where
  "Path s =
     \<lparr>anchor = (if take 1 s = ''/'' then
                   (if take 2 s = ''//'' \<and> take 3 s \<noteq> ''///'' then ''//'' else ''/'')
                 else []),
      parts = filter (\<lambda>x. x \<noteq> [] \<and> x \<noteq> ''.'') (split_on CHR ''/'' s)\<rparr>"

definition path_str :: "path \<Rightarrow> string" where
  "path_str p =
     (if anchor p = [] \<and> parts p = [] then ''.'' else anchor p @ join ''/'' (parts p))"

definition is_absolute :: "path \<Rightarrow> bool" where
  "is_absolute p = (anchor p \<noteq> [])"

definition joinpath :: "path \<Rightarrow> path \<Rightarrow> path" where
  "joinpath a b =
     (if is_absolute b then b else \<lparr>anchor = anchor a, parts = parts a @ parts b\<rparr>)"

definition parent :: "path \<Rightarrow> path" where
  "parent p = (if parts p = [] then p else p\<lparr>parts := butlast (parts p)\<rparr>)"

section \<open>Configuration\<close>

text \<open>
  The float-valued settings are read with \<open>float(...)\<close>, which also accepts \<open>inf\<close> and
  \<open>nan\<close>. A Python float is an IEEE 754 binary64 number: a finite value is the rational
  it denotes, and every arithmetic result is rounded to the nearest binary64 number, ties
  to the even significand.
\<close>

datatype pyfloat = Fin rat | PosInf | NegInf | NaN

text \<open>The exponent \<open>e\<close> of a positive rational: \<open>2^e \<le> a < 2^(e+1)\<close>.\<close>

definition float_exponent :: "rat \<Rightarrow> int" where
  "float_exponent a =
     (let (p, q) = quotient_of a; e0 = bitlen p - bitlen q
      in if 2 powi e0 \<le> a then e0 else e0 - 1)"

definition round_half_even :: "rat \<Rightarrow> int" where
  "round_half_even x =
     (let f = \<lfloor>x\<rfloor>; d = x - of_int f
      in if 1 / 2 < d \<or> (d = 1 / 2 \<and> odd f) then f + 1 else f)"

text \<open>
  Rounding to binary64: 53 significant bits, the unit in the last place not below
  \<open>2^-1074\<close> (subnormal numbers), infinity from \<open>2^1024\<close> on.
\<close>

definition round64 :: "rat \<Rightarrow> pyfloat" where
  "round64 r =
     (if r = 0 then Fin 0
      else
        (let a = \<bar>r\<bar>;
             u = max (float_exponent a - 52) (- 1074);
             v = of_int (round_half_even (a / 2 powi u)) * 2 powi u
         in if 2 powi 1024 \<le> v then (if 0 < r then PosInf else NegInf)
            else Fin (if 0 < r then v else - v)))"

fun float_le :: "pyfloat \<Rightarrow> pyfloat \<Rightarrow> bool" where
  "float_le NaN _ = False"
| "float_le _ NaN = False"
| "float_le NegInf _ = True"
| "float_le _ PosInf = True"
| "float_le (Fin a) (Fin b) = (a \<le> b)"
| "float_le _ _ = False"

text \<open>The product of a float and the float of a small integer such as \<open>60\<close>.\<close>

fun float_mul :: "pyfloat \<Rightarrow> rat \<Rightarrow> pyfloat" where
  "float_mul (Fin a) k = round64 (a * k)"
| "float_mul PosInf k = (if k > 0 then PosInf else if k < 0 then NegInf else NaN)"
| "float_mul NegInf k = (if k > 0 then NegInf else if k < 0 then PosInf else NaN)"
| "float_mul NaN k = NaN"

record BaseConfig =
  sync_directory :: path
  dry_run :: bool
  log_level :: string
  max_downloads :: int
  max_file_size_mb :: int
  pushover_device :: string
  enable_pushover :: bool
  include_personal_albums :: bool
  include_shared_albums :: bool
  personal_album_names_to_include :: "string list"
  shared_album_names_to_include :: "string list"
  execution_mode :: string
  sync_interval_minutes :: pyfloat
  maintenance_interval_hours :: pyfloat
  database_parent_directory :: string

definition ICLOUD_KEYRING_SERVICE_NAME :: string where
  "ICLOUD_KEYRING_SERVICE_NAME = ''icloud-photo-sync''"

definition PUSHOVER_KEYRING_SERVICE_NAME :: string where
  "PUSHOVER_KEYRING_SERVICE_NAME = ''pushover-photo-sync''"

text \<open>The configuration that \<open>__init__\<close> builds when no setting is present.\<close>

definition default_config :: BaseConfig where
  "default_config =
     \<lparr>sync_directory = Path ''./photos'', dry_run = False, log_level = ''INFO'',
      max_downloads = 0, max_file_size_mb = 0, pushover_device = [],
      enable_pushover = True, include_personal_albums = True,
      include_shared_albums = True, personal_album_names_to_include = [],
      shared_album_names_to_include = [], execution_mode = ''single'',
      sync_interval_minutes = Fin 2, maintenance_interval_hours = Fin 1,
      database_parent_directory = ''.data''\<rparr>"

subsection \<open>Credential accessors\<close>

definition icloud_get_username_from_store :: "keyring \<Rightarrow> string option" where
  "icloud_get_username_from_store kr =
     (case get_password kr ICLOUD_KEYRING_SERVICE_NAME ''username'' of
        Inl e \<Rightarrow> None
      | Inr stored_username \<Rightarrow> stored_username)"

definition icloud_username :: "BaseConfig \<Rightarrow> keyring \<Rightarrow> exc + string" where
  "icloud_username self kr =
     (let v = icloud_get_username_from_store kr in
      if \<not> truthy v \<and> enable_pushover self
      then Inl (ValueError ''icloud_username is required (store in keyring)'')
      else Inr (or_empty v))"

definition icloud_get_password_from_store :: "BaseConfig \<Rightarrow> keyring \<Rightarrow> string option" where
  "icloud_get_password_from_store self kr =
     (case icloud_username self kr of
        Inl e \<Rightarrow> None
      | Inr username \<Rightarrow>
          (case get_password kr ICLOUD_KEYRING_SERVICE_NAME username of
             Inl e \<Rightarrow> None
           | Inr stored_password \<Rightarrow> stored_password))"

definition icloud_password :: "BaseConfig \<Rightarrow> keyring \<Rightarrow> exc + string" where
  "icloud_password self kr =
     (let v = icloud_get_password_from_store self kr in
      if \<not> truthy v \<and> enable_pushover self
      then Inl (ValueError ''icloud_password is required (store in keyring)'')
      else Inr (or_empty v))"

definition pushover_get_user_key_from_store :: "keyring \<Rightarrow> string option" where
  "pushover_get_user_key_from_store kr =
     (case get_password kr PUSHOVER_KEYRING_SERVICE_NAME ''user_key'' of
        Inl e \<Rightarrow> None
      | Inr stored_user_key \<Rightarrow> stored_user_key)"

definition pushover_user_key :: "BaseConfig \<Rightarrow> keyring \<Rightarrow> exc + string" where
  "pushover_user_key self kr =
     (let v = pushover_get_user_key_from_store kr in
      if \<not> truthy v \<and> enable_pushover self
      then Inl (ValueError ''pushover_user_key is required (store in keyring)'')
      else Inr (or_empty v))"

definition pushover_get_api_token_from_store :: "BaseConfig \<Rightarrow> keyring \<Rightarrow> string option" where
  "pushover_get_api_token_from_store self kr =
     (case pushover_user_key self kr of
        Inl e \<Rightarrow> None
      | Inr user_key \<Rightarrow>
          (case get_password kr PUSHOVER_KEYRING_SERVICE_NAME user_key of
             Inl e \<Rightarrow> None
           | Inr stored_api_token \<Rightarrow> stored_api_token))"

definition pushover_api_token :: "BaseConfig \<Rightarrow> keyring \<Rightarrow> exc + string" where
  "pushover_api_token self kr =
     (let v = pushover_get_api_token_from_store self kr in
      if \<not> truthy v \<and> enable_pushover self
      then Inl (ValueError ''pushover_api_token is required (store in keyring)'')
      else Inr (or_empty v))"

subsection \<open>Storing and deleting credentials\<close>

definition icloud_store_credentials :: "keyring \<Rightarrow> string \<Rightarrow> string \<Rightarrow> bool \<times> keyring" where
  "icloud_store_credentials kr username password =
     (case set_password kr ICLOUD_KEYRING_SERVICE_NAME ''username'' username of
        Inl e \<Rightarrow> (False, kr)
      | Inr kr1 \<Rightarrow>
          (case set_password kr1 ICLOUD_KEYRING_SERVICE_NAME username password of
             Inl e \<Rightarrow> (False, kr1)
           | Inr kr2 \<Rightarrow> (True, kr2)))"

definition icloud_delete_credentials :: "keyring \<Rightarrow> bool \<times> keyring" where
  "icloud_delete_credentials kr =
     (case get_password kr ICLOUD_KEYRING_SERVICE_NAME ''username'' of
        Inl e \<Rightarrow> (False, kr)
      | Inr stored_username \<Rightarrow>
          (if truthy stored_username then
             (case delete_password kr ICLOUD_KEYRING_SERVICE_NAME (or_empty stored_username) of
                Inl e \<Rightarrow> (False, kr)
              | Inr kr1 \<Rightarrow>
                  (case delete_password kr1 ICLOUD_KEYRING_SERVICE_NAME ''username'' of
                     Inl e \<Rightarrow> (False, kr1)
                   | Inr kr2 \<Rightarrow> (True, kr2)))
           else (True, kr)))"

section \<open>The process environment and the file system\<close>

text \<open>
  What the code reads from its process: \<open>os.name\<close>, \<open>os.environ\<close>, the result of
  \<open>os.path.expanduser('~')\<close> and the working directory (as the list of its components).
  The path functions below are those of a POSIX platform.
\<close>

record env =
  os_name :: string
  environ :: "string \<rightharpoonup> string"
  home :: string
  cwd :: "string list"

text \<open>
  The file system maps a resolved absolute path (its components) to a directory or a
  regular file; the flag says whether the process may write to it. The root always exists
  and is a directory. Symbolic links and search permissions are not modelled.
\<close>

datatype node = Dir bool | File bool string

type_synonym fs = "string list \<rightharpoonup> node"

definition node_at :: "fs \<Rightarrow> string list \<Rightarrow> node option" where
  "node_at fs k = (if k = [] then Some (Dir (fs [] = Some (Dir True))) else fs k)"

text \<open>Walking down directory components from a directory \<open>cur\<close>.\<close>

fun walk :: "fs \<Rightarrow> string list \<Rightarrow> string list \<Rightarrow> os_err + string list" where
  "walk fs cur [] = Inr cur"
| "walk fs cur (c # cs) =
     (if c = ''..'' then walk fs (butlast cur) cs
      else (case node_at fs (cur @ [c]) of
              None \<Rightarrow> Inl ENOENT
            | Some (File w d) \<Rightarrow> Inl ENOTDIR
            | Some (Dir w) \<Rightarrow> walk fs (cur @ [c]) cs))"

text \<open>The key of the entry that a path names; the entry itself need not exist.\<close>

definition locate :: "fs \<Rightarrow> env \<Rightarrow> path \<Rightarrow> os_err + string list" where
  "locate fs env p =
     (let start = (if is_absolute p then [] else cwd env) in
      if parts p = [] then Inr start
      else (case walk fs start (butlast (parts p)) of
              Inl e \<Rightarrow> Inl e
            | Inr d \<Rightarrow> Inr (if last (parts p) = ''..'' then butlast d else d @ [last (parts p)])))"

definition is_dir :: "fs \<Rightarrow> env \<Rightarrow> path \<Rightarrow> bool" where
  "is_dir fs env p =
     (case locate fs env p of
        Inl e \<Rightarrow> False
      | Inr k \<Rightarrow> (case node_at fs k of Some (Dir w) \<Rightarrow> True | _ \<Rightarrow> False))"

text \<open>\<open>os.access(path, os.W_OK)\<close>.\<close>

definition os_access_w :: "fs \<Rightarrow> env \<Rightarrow> path \<Rightarrow> bool" where
  "os_access_w fs env p =
     (case locate fs env p of
        Inl e \<Rightarrow> False
      | Inr k \<Rightarrow> (case node_at fs k of
                    None \<Rightarrow> False
                  | Some (Dir w) \<Rightarrow> w
                  | Some (File w d) \<Rightarrow> w))"

definition os_mkdir :: "fs \<Rightarrow> env \<Rightarrow> path \<Rightarrow> os_err + fs" where
  "os_mkdir fs env p =
     (case locate fs env p of
        Inl e \<Rightarrow> Inl e
      | Inr k \<Rightarrow>
          (case node_at fs k of
             Some n \<Rightarrow> Inl EEXIST
           | None \<Rightarrow>
               (case node_at fs (butlast k) of
                  None \<Rightarrow> Inl ENOENT
                | Some (File w d) \<Rightarrow> Inl ENOTDIR
                | Some (Dir w) \<Rightarrow> if w then Inr (fs(k \<mapsto> Dir True)) else Inl EACCES)))"

text \<open>\<open>Path.mkdir(parents=False, exist_ok=True)\<close>.\<close>

definition mkdir_exist_ok :: "fs \<Rightarrow> env \<Rightarrow> path \<Rightarrow> (exc + unit) \<times> fs" where
  "mkdir_exist_ok fs env p =
     (case os_mkdir fs env p of
        Inr fs1 \<Rightarrow> (Inr (), fs1)
      | Inl e \<Rightarrow>
          if e = ENOENT then (Inl (OSError e (path_str p)), fs)
          else if is_dir fs env p then (Inr (), fs)
          else (Inl (OSError e (path_str p)), fs))"

text \<open>
  \<open>Path.mkdir(parents=True, exist_ok=True)\<close>: when a parent is missing, the parent is made
  first (recursively) and the directory itself afterwards.
\<close>

function mkdir_parents :: "fs \<Rightarrow> env \<Rightarrow> path \<Rightarrow> (exc + unit) \<times> fs" where
  "mkdir_parents fs env p =
     (case os_mkdir fs env p of
        Inr fs1 \<Rightarrow> (Inr (), fs1)
      | Inl e \<Rightarrow>
          if e = ENOENT then
            (if parts p = [] then (Inl (OSError e (path_str p)), fs)
             else (case mkdir_parents fs env (parent p) of
                     (Inl e1, fs1) \<Rightarrow> (Inl e1, fs1)
                   | (Inr u, fs1) \<Rightarrow> mkdir_exist_ok fs1 env p))
          else if is_dir fs env p then (Inr (), fs)
          else (Inl (OSError e (path_str p)), fs))"
  by pat_completeness auto
termination
  by (relation "measure (\<lambda>(fs, env, p). length (parts p))") (auto simp: parent_def)

declare mkdir_parents.simps [simp del]

section \<open>String functions of the standard library\<close>

text \<open>\<open>sub in s\<close> and \<open>s.replace(old, new)\<close>.\<close>

fun contains :: "string \<Rightarrow> string \<Rightarrow> bool" where
  "contains sub [] = (sub = [])"
| "contains sub (c # cs) = (take (length sub) (c # cs) = sub \<or> contains sub cs)"

function str_replace :: "string \<Rightarrow> string \<Rightarrow> string \<Rightarrow> string" where
  "str_replace old new s =
     (if old = [] then new @ concat (map (\<lambda>c. c # new) s)
      else if s = [] then []
      else if take (length old) s = old then new @ str_replace old new (drop (length old) s)
      else hd s # str_replace old new (tl s))"
  by pat_completeness auto
termination
  by (relation "measure (\<lambda>(old, new, s). length s)") auto

declare str_replace.simps [simp del]

text \<open>
  \<open>posixpath.expandvars\<close>: each match of the pattern \<open>\$(\w+|\{[^}]*\})\<close> (ASCII word
  characters) whose name is set in the environment is replaced by its value; a match whose
  name is not set is left as it is; replaced text is not scanned again.
\<close>

definition is_word_char :: "char \<Rightarrow> bool" where
  "is_word_char c =
     (c \<in> set ''abcdefghijklmnopqrstuvwxyzABCDEFGHIJKLMNOPQRSTUVWXYZ0123456789_'')"

text \<open>
  The match of the pattern right after a dollar sign: the variable name, the matched
  text and the text that follows the match.
\<close>

definition match_var :: "string \<Rightarrow> (string \<times> string \<times> string) option" where
  "match_var s =
     (let w = takeWhile is_word_char s in
      if w \<noteq> [] then Some (w, w, dropWhile is_word_char s)
      else (case s of
              [] \<Rightarrow> None
            | c # r \<Rightarrow>
                if c = CHR ''{'' \<and> CHR ''}'' \<in> set r then
                  (let n = takeWhile (\<lambda>x. x \<noteq> CHR ''}'') r in
                   Some (n, ''{'' @ n @ ''}'', drop 1 (dropWhile (\<lambda>x. x \<noteq> CHR ''}'') r)))
                else None))"

function expandvars :: "(string \<rightharpoonup> string) \<Rightarrow> string \<Rightarrow> string" where
  "expandvars vars [] = []"
| "expandvars vars (c # s) =
     (if c = CHR ''$'' then
        (case match_var s of
           None \<Rightarrow> c # expandvars vars s
         | Some (name, matched, rest) \<Rightarrow>
             (case vars name of
                None \<Rightarrow> c # matched @ expandvars vars rest
              | Some v \<Rightarrow> v @ expandvars vars rest))
      else c # expandvars vars s)"
  by pat_completeness auto
termination
proof (relation "measure (\<lambda>(vars, s). length s)")
  show "wf (measure (\<lambda>(vars, s). length s))" by simp
next
  fix vars :: "string \<rightharpoonup> string" and c :: char and s x2 name y matched rest
  assume "match_var s = Some x2" and "(name, y) = x2" and "(matched, rest) = y"
  then have m: "match_var s = Some (name, matched, rest)" by simp
  have "length rest \<le> length s"
  proof (cases "takeWhile is_word_char s = []")
    case False
    with m have "rest = dropWhile is_word_char s"
      by (simp add: match_var_def Let_def)
    then show ?thesis by (simp add: length_dropWhile_le)
  next
    case True
    with m obtain c' r where s: "s = c' # r"
      and rest: "rest = drop 1 (dropWhile (\<lambda>x. x \<noteq> CHR ''}'') r)"
      by (cases s) (auto simp: match_var_def Let_def split: if_splits)
    have "length (dropWhile (\<lambda>x. x \<noteq> CHR ''}'') r) \<le> length r"
      by (rule length_dropWhile_le)
    with s rest show ?thesis by simp
  qed
  then show "((vars, rest), (vars, c # s)) \<in> measure (\<lambda>(vars, s). length s)"
    and "((vars, rest), (vars, c # s)) \<in> measure (\<lambda>(vars, s). length s)"
    by simp_all
qed auto

section \<open>Database path\<close>

definition database_path :: "BaseConfig \<Rightarrow> env \<Rightarrow> fs \<Rightarrow> (exc + path) \<times> fs" where
  "database_path self env fs =
     (let expanded_path = expandvars (environ env) (database_parent_directory self);
          expanded_path =
            (if contains ''%LOCALAPPDATA%'' expanded_path \<and> os_name env \<noteq> ''nt''
             then str_replace ''%LOCALAPPDATA%'' (home env @ ''/.local/share'') expanded_path
             else expanded_path);
          database_dir = Path expanded_path;
          database_dir =
            (if \<not> is_absolute database_dir then joinpath (sync_directory self) database_dir
             else database_dir)
      in case mkdir_parents fs env database_dir of
           (Inl e, fs1) \<Rightarrow> (Inl e, fs1)
         | (Inr u, fs1) \<Rightarrow> (Inr (joinpath database_dir (Path ''deletion_tracker.db'')), fs1))"

section \<open>Validation\<close>

text \<open>The text of an exception, as \<open>str(e)\<close> gives it.\<close>

definition os_err_str :: "os_err \<Rightarrow> string" where
  "os_err_str e =
     (case e of
        ENOENT \<Rightarrow> ''[Errno 2] No such file or directory''
      | EEXIST \<Rightarrow> ''[Errno 17] File exists''
      | ENOTDIR \<Rightarrow> ''[Errno 20] Not a directory''
      | EACCES \<Rightarrow> ''[Errno 13] Permission denied''
      | EISDIR \<Rightarrow> ''[Errno 21] Is a directory'')"

definition quoted :: "string \<Rightarrow> string" where
  "quoted s = [CHR 0x27] @ s @ [CHR 0x27]"

definition exc_str :: "exc \<Rightarrow> string" where
  "exc_str e =
     (case e of
        ValueError m \<Rightarrow> m
      | KeyError k \<Rightarrow> quoted k
      | TypeError \<Rightarrow> []
      | AttributeError \<Rightarrow> []
      | OSError k p \<Rightarrow> os_err_str k @ '': '' @ quoted p
      | KeyringError \<Rightarrow> []
      | PasswordDeleteError \<Rightarrow> []
      | PyiCloudFailedLoginException m \<Rightarrow> m
      | PyiCloudAPIResponseException m \<Rightarrow> m
      | OverflowError \<Rightarrow> ''integer division result too large for a float''
      | ZeroDivisionError \<Rightarrow> ''division by zero''
      | OtherException m \<Rightarrow> m)"

text \<open>A credential is resolvable when its accessor returns a non-empty value.\<close>

definition resolvable :: "exc + string \<Rightarrow> bool" where
  "resolvable r = (case r of Inl e \<Rightarrow> False | Inr v \<Rightarrow> v \<noteq> [])"

text \<open>
  One credential check of \<open>validate\<close>: the accessor is read inside \<open>try\<close>; an empty value
  and a \<open>ValueError\<close> both append the message; any other exception propagates.
\<close>

definition try_credential :: "exc + string \<Rightarrow> string \<Rightarrow> exc + string list" where
  "try_credential r msg =
     (case r of
        Inr v \<Rightarrow> Inr (if v = [] then [msg] else [])
      | Inl e \<Rightarrow> (case e of ValueError m \<Rightarrow> Inr [msg] | _ \<Rightarrow> Inl e))"

definition pushover_checks :: "BaseConfig \<Rightarrow> keyring \<Rightarrow> exc + string list" where
  "pushover_checks self kr =
     (if enable_pushover self then
        (case try_credential (pushover_api_token self kr)
                ''PUSHOVER_API_TOKEN is required when ENABLE_PUSHOVER=true'' of
           Inl e \<Rightarrow> Inl e
         | Inr a \<Rightarrow>
             (case try_credential (pushover_user_key self kr)
                     ''PUSHOVER_USER_KEY is required when ENABLE_PUSHOVER=true'' of
                Inl e \<Rightarrow> Inl e
              | Inr b \<Rightarrow> Inr (a @ b)))
      else Inr [])"

text \<open>The handler \<open>except (OSError, PermissionError, ValueError) as e\<close>.\<close>

definition database_handler :: "exc \<Rightarrow> exc + string list" where
  "database_handler e =
     (case e of
        OSError k p \<Rightarrow> Inr [''Invalid database path configuration: '' @ exc_str e]
      | ValueError m \<Rightarrow> Inr [''Invalid database path configuration: '' @ exc_str e]
      | _ \<Rightarrow> Inl e)"

definition database_checks :: "BaseConfig \<Rightarrow> env \<Rightarrow> fs \<Rightarrow> (exc + string list) \<times> fs" where
  "database_checks self env fs =
     (case database_path self env fs of
        (Inl e, fs1) \<Rightarrow> (database_handler e, fs1)
      | (Inr dbp, fs1) \<Rightarrow>
          (case mkdir_parents fs1 env (parent dbp) of
             (Inl e, fs2) \<Rightarrow> (database_handler e, fs2)
           | (Inr u, fs2) \<Rightarrow>
               (Inr (if \<not> os_access_w fs2 env (parent dbp)
                     then [''Database directory is not writable: '' @ path_str (parent dbp)]
                     else []), fs2)))"

text \<open>The checks that read only the settings, in the order of the source.\<close>

definition log_level_errors :: "BaseConfig \<Rightarrow> string list" where
  "log_level_errors self =
     (if log_level self \<notin> set [''DEBUG'', ''INFO'', ''WARNING'', ''ERROR'']
      then [''Invalid LOG_LEVEL: '' @ log_level self] else [])"

definition album_errors :: "BaseConfig \<Rightarrow> string list" where
  "album_errors self =
     (if \<not> include_personal_albums self \<and> \<not> include_shared_albums self
      then [''At least one of INCLUDE_PERSONAL_ALBUMS or INCLUDE_SHARED_ALBUMS must be true'']
      else [])"

definition execution_mode_errors :: "BaseConfig \<Rightarrow> string list" where
  "execution_mode_errors self =
     (if execution_mode self \<notin> set [''single'', ''continuous'']
      then [''Invalid EXECUTION_MODE: '' @ execution_mode self
            @ ''. Must be '' @ quoted ''single'' @ '' or '' @ quoted ''continuous'']
      else [])"

definition interval_errors :: "BaseConfig \<Rightarrow> string list" where
  "interval_errors self =
     (if float_le (sync_interval_minutes self) (Fin 0)
      then [''SYNC_INTERVAL_MINUTES must be bigger than 0 minutes''] else [])
     @ (if float_le (maintenance_interval_hours self) (Fin 0)
        then [''MAINTENANCE_INTERVAL_HOURS must be bigger than 0 hours''] else [])
     @ (if float_le (float_mul (maintenance_interval_hours self) 60) (sync_interval_minutes self)
        then [''MAINTENANCE_INTERVAL_HOURS * 60 must be bigger than SYNC_INTERVAL_MINUTES'']
        else [])"

text \<open>
  The list \<open>errors\<close> that \<open>validate\<close> accumulates, with the file system after the
  database directory has been made; \<open>Inl\<close> is an exception that no handler of
  \<open>validate\<close> catches.
\<close>

definition validation_errors ::
  "BaseConfig \<Rightarrow> env \<Rightarrow> keyring \<Rightarrow> fs \<Rightarrow> (exc + string list) \<times> fs" where
  "validation_errors self env kr fs =
     (case try_credential (icloud_username self kr)
             ''icloud_username is required (store in keyring)'' of
        Inl e \<Rightarrow> (Inl e, fs)
      | Inr e1 \<Rightarrow>
     (case try_credential (icloud_password self kr)
             ''icloud_password is required (store in keyring)'' of
        Inl e \<Rightarrow> (Inl e, fs)
      | Inr e2 \<Rightarrow>
     (case pushover_checks self kr of
        Inl e \<Rightarrow> (Inl e, fs)
      | Inr e4 \<Rightarrow>
     (case database_checks self env fs of
        (Inl e, fs1) \<Rightarrow> (Inl e, fs1)
      | (Inr e10, fs1) \<Rightarrow>
          (Inr (e1 @ e2 @ log_level_errors self @ e4 @ album_errors self
                @ execution_mode_errors self @ interval_errors self @ e10), fs1)))))"

definition validate :: "BaseConfig \<Rightarrow> env \<Rightarrow> keyring \<Rightarrow> fs \<Rightarrow> (exc + unit) \<times> fs" where
  "validate self env kr fs =
     (case validation_errors self env kr fs of
        (Inl e, fs1) \<Rightarrow> (Inl e, fs1)
      | (Inr errors, fs1) \<Rightarrow>
          if errors \<noteq> []
          then (Inl (ValueError (''Configuration errors: '' @ join '', '' errors)), fs1)
          else (Inr (), fs1))"

section \<open>The remote client\<close>

text \<open>
  The remote service is a collaborator. A \<open>PyiCloudService\<close> object is modelled by what its
  members answer: the \<open>photos\<close> property (an exception, or the truth value of the object it
  returns), \<open>requires_2fa\<close> and \<open>validate_2fa_code\<close>. A photo object answers \<open>download()\<close>
  with an exception, with \<open>None\<close> or with a response whose \<open>raw.read()\<close> gives the bytes
  or raises.
\<close>

record PyiCloudService =
  svc_photos :: "exc + bool"
  svc_requires_2fa :: bool
  svc_validate_2fa_code :: "string \<Rightarrow> exc + bool"

datatype response = NoResponse | Response "exc + string"

record PhotoAsset =
  photo_id :: string
  download :: "exc + response"

text \<open>The values found in a photo metadata dictionary.\<close>

datatype pyval = VNone | VInt int | VStr string | VPhoto PhotoAsset

type_synonym photo_info = "string \<rightharpoonup> pyval"

text \<open>
  The effects of the client are made explicit: the file system, the credential store (only
  read here), the messages logged, and the calls made to the remote service, in order.
\<close>

datatype level = DEBUG | INFO | WARNING | ERROR

datatype log_msg =
    CredentialsNotConfigured
  | Authenticating string
  | AuthenticationSucceeded
  | PhotosAccessFailed
  | LoginFailed exc
  | ApiError exc
  | UnexpectedAuthError exc
  | TwoFASucceeded
  | TwoFAFailed
  | TwoFAError exc
  | Downloading pyval string
  | Skipping pyval rat int
  | DryRun pyval string
  | Downloaded pyval
  | DownloadError pyval exc

datatype remote_call =
    Login string string
  | AccessPhotos
  | Validate2FA string
  | Download string

record world =
  w_fs :: fs
  w_kr :: keyring
  w_log :: "(level \<times> log_msg) list"
  w_remote :: "remote_call list"

definition log_add :: "level \<Rightarrow> log_msg \<Rightarrow> world \<Rightarrow> world" where
  "log_add l m w = w\<lparr>w_log := w_log w @ [(l, m)]\<rparr>"

definition call_add :: "remote_call \<Rightarrow> world \<Rightarrow> world" where
  "call_add c w = w\<lparr>w_remote := w_remote w @ [c]\<rparr>"

text \<open>
  The client holds its configuration and the session \<open>_api\<close>. The configuration class that
  the client module imports has the attributes of \<open>BaseConfig\<close>, which stands for it here.
\<close>

record iCloudClient =
  config :: BaseConfig
  api :: "PyiCloudService option"

subsection \<open>Authentication\<close>

text \<open>
  The body of the \<open>try\<close> block of \<open>authenticate\<close>; \<open>service\<close> is the constructor
  \<open>PyiCloudService(username, password)\<close>. The source reads each credential property
  several times; the store does not change in between, so each is read once here.
\<close>

definition authenticate_body ::
  "(string \<Rightarrow> string \<Rightarrow> exc + PyiCloudService) \<Rightarrow> iCloudClient \<Rightarrow> world
     \<Rightarrow> (exc + bool) \<times> iCloudClient \<times> world" where
  "authenticate_body service self w =
     (case icloud_username (config self) (w_kr w) of
        Inl e \<Rightarrow> (Inl e, self, w)
      | Inr username \<Rightarrow>
          if username = [] then (Inr False, self, log_add ERROR CredentialsNotConfigured w)
          else
            (case icloud_password (config self) (w_kr w) of
               Inl e \<Rightarrow> (Inl e, self, w)
             | Inr password \<Rightarrow>
                 if password = [] then
                   (Inr False, self, log_add ERROR CredentialsNotConfigured w)
                 else
                   (let w1 = log_add INFO (Authenticating username) w;
                        w2 = call_add (Login username password) w1
                    in case service username password of
                         Inl e \<Rightarrow> (Inl e, self, w2)
                       | Inr a \<Rightarrow>
                           (let self1 = self\<lparr>api := Some a\<rparr>;
                                w3 = call_add AccessPhotos w2
                            in case svc_photos a of
                                 Inl e \<Rightarrow> (Inl e, self1, w3)
                               | Inr p \<Rightarrow>
                                   if p then
                                     (Inr True, self1, log_add INFO AuthenticationSucceeded w3)
                                   else
                                     (Inr False, self1, log_add ERROR PhotosAccessFailed w3)))))"

text \<open>The three handlers of \<open>authenticate\<close>: each logs its own message and returns False.\<close>

definition authenticate_handler :: "exc \<Rightarrow> log_msg" where
  "authenticate_handler e =
     (case e of
        PyiCloudFailedLoginException m \<Rightarrow> LoginFailed e
      | PyiCloudAPIResponseException m \<Rightarrow> ApiError e
      | _ \<Rightarrow> UnexpectedAuthError e)"

definition authenticate ::
  "(string \<Rightarrow> string \<Rightarrow> exc + PyiCloudService) \<Rightarrow> iCloudClient \<Rightarrow> world
     \<Rightarrow> (exc + bool) \<times> iCloudClient \<times> world" where
  "authenticate service self w =
     (case authenticate_body service self w of
        (Inl e, self1, w1) \<Rightarrow> (Inr False, self1, log_add ERROR (authenticate_handler e) w1)
      | (Inr b, self1, w1) \<Rightarrow> (Inr b, self1, w1))"

subsection \<open>Second factor\<close>

definition handle_2fa :: "iCloudClient \<Rightarrow> string \<Rightarrow> world \<Rightarrow> (exc + bool) \<times> world" where
  "handle_2fa self code w =
     (case api self of
        None \<Rightarrow> (Inr False, w)
      | Some a \<Rightarrow>
          (let w1 = call_add (Validate2FA code) w
           in case svc_validate_2fa_code a code of
                Inl e \<Rightarrow> (Inr False, log_add ERROR (TwoFAError e) w1)
              | Inr result \<Rightarrow>
                  (Inr result,
                   if result then log_add INFO TwoFASucceeded w1
                   else log_add ERROR TwoFAFailed w1)))"

subsection \<open>Download\<close>

text \<open>
  \<open>open(local_path, 'wb')\<close>: the file is created, or truncated when it exists. The result
  is the key of the file and the new file system.
\<close>

definition open_wb :: "fs \<Rightarrow> env \<Rightarrow> string \<Rightarrow> os_err + string list \<times> fs" where
  "open_wb fs env s =
     (if s = [] then Inl ENOENT
      else
        (case locate fs env (Path s) of
           Inl e \<Rightarrow> Inl e
         | Inr k \<Rightarrow>
             (case node_at fs k of
                Some (Dir w) \<Rightarrow> Inl EISDIR
              | Some (File w d) \<Rightarrow>
                  if last s = CHR ''/'' then Inl ENOTDIR
                  else if w then Inr (k, fs(k \<mapsto> File w []))
                  else Inl EACCES
              | None \<Rightarrow>
                  if last s = CHR ''/'' then Inl EISDIR
                  else
                    (case node_at fs (butlast k) of
                       None \<Rightarrow> Inl ENOENT
                     | Some (File w d) \<Rightarrow> Inl ENOTDIR
                     | Some (Dir w) \<Rightarrow>
                         if w then Inr (k, fs(k \<mapsto> File True [])) else Inl EACCES))))"

definition write_file :: "fs \<Rightarrow> string list \<Rightarrow> string \<Rightarrow> fs" where
  "write_file fs k d = (case fs k of Some (File w old) \<Rightarrow> fs(k \<mapsto> File w d) | _ \<Rightarrow> fs)"

text \<open>
  True division of a dictionary value by an integer: the quotient of two integers is
  rounded to binary64 and raises \<open>OverflowError\<close> when it is too large for a float; a
  value that is not a number raises \<open>TypeError\<close>.
\<close>

definition true_div :: "pyval \<Rightarrow> int \<Rightarrow> exc + rat" where
  "true_div v d =
     (case v of
        VInt n \<Rightarrow>
          if d = 0 then Inl ZeroDivisionError
          else (case round64 (of_int n / of_int d) of
                  Fin q \<Rightarrow> Inr q
                | _ \<Rightarrow> Inl OverflowError)
      | _ \<Rightarrow> Inl TypeError)"

definition dict_get :: "photo_info \<Rightarrow> string \<Rightarrow> pyval \<Rightarrow> pyval" where
  "dict_get d k dflt = (case d k of None \<Rightarrow> dflt | Some v \<Rightarrow> v)"

text \<open>
  The last part of the \<open>try\<close> block: \<open>photo.download()\<close>, then the file is opened, then
  \<open>download.raw.read()\<close> is evaluated and written.
\<close>

definition fetch_and_write ::
  "env \<Rightarrow> pyval \<Rightarrow> pyval \<Rightarrow> string \<Rightarrow> world \<Rightarrow> (exc + bool) \<times> world" where
  "fetch_and_write env photo filename local_path w =
     (case photo of
        VPhoto ph \<Rightarrow>
          (let w1 = call_add (Download (photo_id ph)) w
           in case download ph of
                Inl e \<Rightarrow> (Inl e, w1)
              | Inr resp \<Rightarrow>
                  (case open_wb (w_fs w1) env local_path of
                     Inl e \<Rightarrow> (Inl (OSError e local_path), w1)
                   | Inr (k, fs1) \<Rightarrow>
                       (let w2 = w1\<lparr>w_fs := fs1\<rparr>
                        in case resp of
                             NoResponse \<Rightarrow> (Inl AttributeError, w2)
                           | Response body \<Rightarrow>
                               (case body of
                                  Inl e \<Rightarrow> (Inl e, w2)
                                | Inr bytes \<Rightarrow>
                                    (Inr True,
                                     log_add DEBUG (Downloaded filename)
                                       (w2\<lparr>w_fs := write_file fs1 k bytes\<rparr>))))))
      | _ \<Rightarrow> (Inl AttributeError, w))"

definition download_photo_body ::
  "env \<Rightarrow> iCloudClient \<Rightarrow> photo_info \<Rightarrow> string \<Rightarrow> world \<Rightarrow> (exc + bool) \<times> world" where
  "download_photo_body env self photo_info local_path w =
     (case photo_info ''photo_obj'' of
        None \<Rightarrow> (Inl (KeyError ''photo_obj''), w)
      | Some photo \<Rightarrow>
     (case photo_info ''filename'' of
        None \<Rightarrow> (Inl (KeyError ''filename''), w)
      | Some filename \<Rightarrow>
     (let w1 = log_add DEBUG (Downloading filename local_path) w
      in case (if max_file_size_mb (config self) > 0
               then true_div (dict_get photo_info ''size'' (VInt 0)) (1024 * 1024)
               else Inr 0) of
           Inl e \<Rightarrow> (Inl e, w1)
         | Inr size_mb \<Rightarrow>
             if max_file_size_mb (config self) > 0
                \<and> size_mb > of_int (max_file_size_mb (config self))
             then (Inr False,
                   log_add INFO (Skipping filename size_mb (max_file_size_mb (config self))) w1)
             else if dry_run (config self)
             then (Inr True, log_add INFO (DryRun filename local_path) w1)
             else fetch_and_write env photo filename local_path w1)))"

definition download_photo ::
  "env \<Rightarrow> iCloudClient \<Rightarrow> photo_info \<Rightarrow> string \<Rightarrow> world \<Rightarrow> (exc + bool) \<times> world" where
  "download_photo env self photo_info local_path w =
     (case download_photo_body env self photo_info local_path w of
        (Inl e, w1) \<Rightarrow>
          (Inr False,
           log_add ERROR (DownloadError (dict_get photo_info ''filename'' (VStr ''unknown'')) e) w1)
      | (Inr b, w1) \<Rightarrow> (Inr b, w1))"

section \<open>Concrete inputs\<close>

text \<open>
  A POSIX process of user \<open>u\<close> whose home directory and photo directory exist and are
  writable, the directory above them being read-only.
\<close>

definition example_env :: env where
  "example_env =
     \<lparr>os_name = ''posix'', environ = Map.empty, home = ''/home/u'', cwd = [''home'', ''u'']\<rparr>"

definition example_fs :: fs where
  "example_fs =
     [[''home''] \<mapsto> Dir False, [''home'', ''u''] \<mapsto> Dir True,
      [''home'', ''u'', ''photos''] \<mapsto> Dir True]"

definition example_world :: world where
  "example_world = \<lparr>w_fs = example_fs, w_kr = empty_keyring, w_log = [], w_remote = []\<rparr>"

text \<open>A 15 MB photo as \<open>list_photos\<close> describes it, and a client without a session.\<close>

definition example_photo :: PhotoAsset where
  "example_photo = \<lparr>photo_id = ''A1'', download = Inr (Response (Inr ''JPEGDATA''))\<rparr>"

definition example_photo_info :: photo_info where
  "example_photo_info =
     [''id'' \<mapsto> VStr ''A1'', ''filename'' \<mapsto> VStr ''IMG_0001.JPG'',
      ''size'' \<mapsto> VInt 15728640, ''created'' \<mapsto> VNone, ''modified'' \<mapsto> VNone,
      ''photo_obj'' \<mapsto> VPhoto example_photo]"

definition example_client :: iCloudClient where
  "example_client = \<lparr>config = default_config, api = None\<rparr>"

text \<open>
  The same photo with a size of \<open>2^53 + 1\<close> bytes, and a client whose size limit is
  \<open>2^33\<close> MB, which is \<open>2^53\<close> bytes.
\<close>

definition big_photo_info :: photo_info where
  "big_photo_info = example_photo_info(''size'' \<mapsto> VInt 9007199254740993)"

definition big_limit_client :: iCloudClient where
  "big_limit_client =
     \<lparr>config = default_config\<lparr>max_file_size_mb := 8589934592\<rparr>, api = None\<rparr>"

text \<open>
  A session whose photo listing is reachable and which accepts the code \<open>123456\<close>, a
  service that opens this session for every login, and a store holding the credentials of
  \<open>alice\<close>.
\<close>

definition example_session :: PyiCloudService where
  "example_session =
     \<lparr>svc_photos = Inr True, svc_requires_2fa = True,
      svc_validate_2fa_code = (\<lambda>code. Inr (code = ''123456''))\<rparr>"

definition example_service :: "string \<Rightarrow> string \<Rightarrow> exc + PyiCloudService" where
  "example_service username password = Inr example_session"

definition alice_keyring :: keyring where
  "alice_keyring = snd (icloud_store_credentials empty_keyring ''alice'' ''s3cret'')"

section \<open>Auxiliary facts\<close>

subsection \<open>Substrings and joined lists\<close>

lemma contains_self_append: "contains sub (sub @ b)"
proof (cases "sub @ b")
  case Nil
  then show ?thesis by simp
next
  case (Cons c cs)
  have "take (length sub) (sub @ b) = sub" by simp
  with Cons show ?thesis by simp
qed

lemma contains_self: "contains sub sub"
  using contains_self_append[of sub "[]"] by simp

lemma contains_append_right: "contains sub s \<Longrightarrow> contains sub (s @ t)"
proof (induction s)
  case Nil
  then have "sub = []" by simp
  then show ?case using contains_self_append[of "[]" t] by simp
next
  case (Cons c cs)
  show ?case
  proof (cases "take (length sub) (c # cs) = sub")
    case True
    have "length (take (length sub) (c # cs)) \<le> length (c # cs)" by simp
    with True have le: "length sub - length (c # cs) = 0" by simp
    have "take (length sub) ((c # cs) @ t) =
            take (length sub) (c # cs) @ take (length sub - length (c # cs)) t"
      by (rule take_append)
    with True le have "take (length sub) ((c # cs) @ t) = sub" by simp
    then have "contains sub (c # (cs @ t))" by (simp del: take_Suc_Cons)
    then show ?thesis by simp
  next
    case False
    with Cons show ?thesis by simp
  qed
qed

lemma contains_append_left: "contains sub s \<Longrightarrow> contains sub (a @ s)"
proof (induction a)
  case Nil
  then show ?case by simp
next
  case (Cons c cs)
  then show ?case by simp
qed

lemma contains_join: "x \<in> set xs \<Longrightarrow> contains x (join sep xs)"
proof (induction sep xs rule: join.induct)
  case (1 sep)
  then show ?case by simp
next
  case (2 sep y)
  then show ?case by (simp add: contains_self)
next
  case (3 sep a b bs)
  show ?case
  proof (cases "x = a")
    case True
    then show ?thesis by (simp add: contains_self_append)
  next
    case False
    with 3 have "contains x (join sep (b # bs))" by simp
    then have "contains x ((a @ sep) @ join sep (b # bs))" by (rule contains_append_left)
    then show ?thesis by simp
  qed
qed

subsection \<open>Exceptions raised while the database directory is made\<close>

lemma mkdir_exist_ok_raises:
  "mkdir_exist_ok fs env p = (Inl e, fs1) \<Longrightarrow> \<exists>k q. e = OSError k q"
  by (auto simp: mkdir_exist_ok_def split: sum.splits if_splits)

lemma mkdir_parents_raises:
  "mkdir_parents fs env p = (Inl e, fs1) \<Longrightarrow> \<exists>k q. e = OSError k q"
proof (induction fs env p arbitrary: e fs1 rule: mkdir_parents.induct)
  case (1 fs env p)
  show ?case
  proof (cases "os_mkdir fs env p")
    case (Inr a)
    with "1.prems" show ?thesis by (simp add: mkdir_parents.simps[of fs env p])
  next
    case (Inl x)
    show ?thesis
    proof (cases "x = ENOENT \<and> parts p \<noteq> []")
      case False
      with Inl "1.prems" show ?thesis
        by (auto simp: mkdir_parents.simps[of fs env p] split: if_splits)
    next
      case True
      obtain r fs' where rec: "mkdir_parents fs env (parent p) = (r, fs')"
        by (cases "mkdir_parents fs env (parent p)")
      show ?thesis
      proof (cases r)
        case (Inl e1)
        with True \<open>os_mkdir fs env p = Inl x\<close> rec "1.prems" have "e = e1"
          by (simp add: mkdir_parents.simps[of fs env p])
        moreover from "1.IH"[of x e1 fs'] True \<open>os_mkdir fs env p = Inl x\<close> rec Inl
        have "\<exists>k q. e1 = OSError k q" by simp
        ultimately show ?thesis by simp
      next
        case (Inr u)
        with True \<open>os_mkdir fs env p = Inl x\<close> rec "1.prems"
        have "mkdir_exist_ok fs' env p = (Inl e, fs1)"
          by (simp add: mkdir_parents.simps[of fs env p])
        then show ?thesis by (rule mkdir_exist_ok_raises)
      qed
    qed
  qed
qed

lemma database_path_raises:
  "database_path self env fs = (Inl e, fs1) \<Longrightarrow> \<exists>k q. e = OSError k q"
  by (auto simp: database_path_def Let_def split: prod.splits sum.splits
      dest: mkdir_parents_raises)

lemma database_checks_returns:
  "\<exists>es fs1. database_checks self env fs = (Inr es, fs1)"
proof -
  obtain r fs1 where dp: "database_path self env fs = (r, fs1)"
    by (cases "database_path self env fs")
  show ?thesis
  proof (cases r)
    case (Inl e)
    with dp obtain k q where "e = OSError k q" by (auto dest: database_path_raises)
    with dp Inl show ?thesis by (simp add: database_checks_def database_handler_def)
  next
    case (Inr dbp)
    obtain r2 fs2 where mk: "mkdir_parents fs1 env (parent dbp) = (r2, fs2)"
      by (cases "mkdir_parents fs1 env (parent dbp)")
    show ?thesis
    proof (cases r2)
      case (Inl e)
      with mk obtain k q where "e = OSError k q" by (auto dest: mkdir_parents_raises)
      with dp Inr mk Inl show ?thesis by (simp add: database_checks_def database_handler_def)
    next
      case (Inr u)
      with dp \<open>r = Inr dbp\<close> mk show ?thesis by (simp add: database_checks_def)
    qed
  qed
qed

subsection \<open>Credential checks of the validation\<close>

lemma try_credential_resolvable:
  "(\<And>e. r = Inl e \<Longrightarrow> \<exists>m. e = ValueError m)
     \<Longrightarrow> try_credential r msg = Inr (if resolvable r then [] else [msg])"
  by (cases r) (auto simp: try_credential_def resolvable_def)

lemma icloud_username_raises: "icloud_username self kr = Inl e \<Longrightarrow> \<exists>m. e = ValueError m"
  by (auto simp: icloud_username_def Let_def split: if_splits)

lemma icloud_password_raises: "icloud_password self kr = Inl e \<Longrightarrow> \<exists>m. e = ValueError m"
  by (auto simp: icloud_password_def Let_def split: if_splits)

lemma pushover_user_key_raises:
  "pushover_user_key self kr = Inl e \<Longrightarrow> \<exists>m. e = ValueError m"
  by (auto simp: pushover_user_key_def Let_def split: if_splits)

lemma pushover_api_token_raises:
  "pushover_api_token self kr = Inl e \<Longrightarrow> \<exists>m. e = ValueError m"
  by (auto simp: pushover_api_token_def Let_def split: if_splits)

lemma pushover_checks_eq:
  "pushover_checks self kr =
     Inr (if enable_pushover self then
            (if resolvable (pushover_api_token self kr) then []
             else [''PUSHOVER_API_TOKEN is required when ENABLE_PUSHOVER=true''])
            @ (if resolvable (pushover_user_key self kr) then []
               else [''PUSHOVER_USER_KEY is required when ENABLE_PUSHOVER=true''])
          else [])"
  by (simp add: pushover_checks_def
      try_credential_resolvable[OF pushover_api_token_raises]
      try_credential_resolvable[OF pushover_user_key_raises])

subsection \<open>Binary64 rounding\<close>

lemma float_exponent_lower:
  assumes "0 < a"
  shows "2 powi (float_exponent a) \<le> a"
proof -
  obtain p q where pq: "quotient_of a = (p, q)" by (cases "quotient_of a")
  then have a: "a = of_int p / of_int q" and q: "0 < q"
    by (simp_all add: quotient_of_div quotient_of_denom_pos)
  from assms a q have p: "0 < p" by (simp add: zero_less_divide_iff)
  define e0 where "e0 = bitlen p - bitlen q"
  show ?thesis
  proof (cases "2 powi e0 \<le> a")
    case True
    then show ?thesis by (simp add: float_exponent_def pq e0_def)
  next
    case False
    have bp: "1 \<le> bitlen p" using p bitlen_eq_zero_iff[of p] bitlen_nonneg[of p] by linarith
    have bq: "1 \<le> bitlen q" using q bitlen_eq_zero_iff[of q] bitlen_nonneg[of q] by linarith
    from bitlen_bounds[OF p] have "(2::int) ^ nat (bitlen p - 1) \<le> p" by simp
    then have "(of_int ((2::int) ^ nat (bitlen p - 1)) :: rat) \<le> of_int p"
      by (simp only: of_int_le_iff)
    then have lp: "(2::rat) powi (bitlen p - 1) \<le> of_int p"
      using bp by (simp add: power_int_def)
    from bitlen_bounds[OF q] have "q < (2::int) ^ nat (bitlen q)" by simp
    then have "(of_int q :: rat) < of_int ((2::int) ^ nat (bitlen q))"
      by (simp only: of_int_less_iff)
    then have uq: "(of_int q :: rat) < 2 powi (bitlen q)"
      using bq by (simp add: power_int_def)
    have "(2::rat) powi (e0 - 1) = 2 powi (bitlen p - 1) / 2 powi (bitlen q)"
      unfolding e0_def using power_int_diff[of "2::rat" "bitlen p - 1" "bitlen q"]
      by (simp add: algebra_simps)
    also have "\<dots> \<le> of_int p / 2 powi (bitlen q)"
      using lp by (simp add: divide_right_mono)
    also have "\<dots> \<le> of_int p / of_int q"
      using uq p q by (simp add: frac_le)
    finally have "(2::rat) powi (e0 - 1) \<le> a" by (simp add: a)
    with False show ?thesis by (simp add: float_exponent_def pq e0_def)
  qed
qed

lemma float_exponent_upper:
  assumes "0 < a"
  shows "a < 2 powi (float_exponent a + 1)"
proof -
  obtain p q where pq: "quotient_of a = (p, q)" by (cases "quotient_of a")
  then have a: "a = of_int p / of_int q" and q: "0 < q"
    by (simp_all add: quotient_of_div quotient_of_denom_pos)
  from assms a q have p: "0 < p" by (simp add: zero_less_divide_iff)
  define e0 where "e0 = bitlen p - bitlen q"
  show ?thesis
  proof (cases "2 powi e0 \<le> a")
    case False
    then show ?thesis by (simp add: float_exponent_def pq e0_def)
  next
    case True
    have bp: "1 \<le> bitlen p" using p bitlen_eq_zero_iff[of p] bitlen_nonneg[of p] by linarith
    have bq: "1 \<le> bitlen q" using q bitlen_eq_zero_iff[of q] bitlen_nonneg[of q] by linarith
    from bitlen_bounds[OF p] have "p < (2::int) ^ nat (bitlen p)" by simp
    then have "(of_int p :: rat) < of_int ((2::int) ^ nat (bitlen p))"
      by (simp only: of_int_less_iff)
    then have up: "(of_int p :: rat) < 2 powi (bitlen p)"
      using bp by (simp add: power_int_def)
    from bitlen_bounds[OF q] have "(2::int) ^ nat (bitlen q - 1) \<le> q" by simp
    then have "(of_int ((2::int) ^ nat (bitlen q - 1)) :: rat) \<le> of_int q"
      by (simp only: of_int_le_iff)
    then have lq: "(2::rat) powi (bitlen q - 1) \<le> of_int q"
      using bq by (simp add: power_int_def)
    have pos: "(0::rat) < 2 powi (bitlen q - 1)" by (simp add: zero_less_power_int)
    have "a = of_int p / of_int q" by (rule a)
    also have "\<dots> \<le> of_int p / 2 powi (bitlen q - 1)"
      using lq pos p by (simp add: frac_le)
    also have "\<dots> < 2 powi (bitlen p) / 2 powi (bitlen q - 1)"
      using up pos by (simp add: divide_strict_right_mono)
    also have "\<dots> = (2::rat) powi (e0 + 1)"
      unfolding e0_def using power_int_diff[of "2::rat" "bitlen p" "bitlen q - 1"]
      by (simp add: algebra_simps)
    finally have "a < 2 powi (e0 + 1)" .
    with True show ?thesis by (simp add: float_exponent_def pq e0_def)
  qed
qed

lemma round_half_even_int: "round_half_even (of_int k) = k"
  by (simp add: round_half_even_def)

lemma round_half_even_ge: "\<lfloor>x\<rfloor> \<le> round_half_even x"
  by (simp add: round_half_even_def Let_def)

lemma powi_less_exp: "(2::rat) powi i < 2 powi j \<Longrightarrow> i < j"
proof (rule ccontr)
  assume l: "(2::rat) powi i < 2 powi j" and "\<not> i < j"
  then have "j \<le> i" by simp
  then have "(2::rat) powi j \<le> 2 powi i" by (rule power_int_increasing) simp
  with l show False by simp
qed

lemma round64_exact_mib:
  assumes "\<bar>n\<bar> < 2 ^ 53"
  shows "round64 (of_int n / of_int (1024 * 1024)) = Fin (of_int n / of_int (1024 * 1024))"
proof (cases "n = 0")
  case True
  then show ?thesis by (simp add: round64_def)
next
  case False
  define r :: rat where "r = of_int n / of_int (1024 * 1024)"
  define a where "a = \<bar>r\<bar>"
  have a: "a = of_int \<bar>n\<bar> / 2 ^ 20" by (simp add: a_def r_def)
  from False have apos: "0 < a" by (simp add: a)
  from False have rne: "r \<noteq> 0" by (simp add: r_def)
  from assms have "(of_int \<bar>n\<bar> :: rat) < of_int (2 ^ 53)" by (simp only: of_int_less_iff)
  then have "a < 2 ^ 53 / 2 ^ 20" unfolding a by (simp add: divide_strict_right_mono)
  then have alt: "a < 2 powi 33" by simp
  define e where "e = float_exponent a"
  define u where "u = max (e - 52) (- 1074)"
  have "2 powi e \<le> a" unfolding e_def using apos by (rule float_exponent_lower)
  with alt have "(2::rat) powi e < 2 powi 33" by simp
  then have "e < 33" by (rule powi_less_exp)
  then have ule: "u \<le> - 20" by (simp add: u_def)
  define k where "k = nat (- 20 - u)"
  from ule have u: "u = - 20 - int k" by (simp add: k_def)
  have pu: "(2::rat) powi u = 1 / (2 ^ 20 * 2 ^ k)"
    unfolding u using power_int_diff[of "2::rat" "- 20" "int k"]
    by (simp add: power_int_minus_divide)
  have x: "a / 2 powi u = of_int (\<bar>n\<bar> * 2 ^ k)"
    by (simp add: a pu)
  have m: "round_half_even (a / 2 powi u) = \<bar>n\<bar> * 2 ^ k"
    unfolding x by (rule round_half_even_int)
  have "of_int (round_half_even (a / 2 powi u)) * 2 powi u
          = (of_int (\<bar>n\<bar> * 2 ^ k) :: rat) * 2 powi u"
    by (simp only: m)
  also have "\<dots> = a" by (simp add: a pu)
  finally have v: "of_int (round_half_even (a / 2 powi u)) * 2 powi u = a" .
  from alt have "a < 2 powi 1024"
  proof -
    have "(2::rat) powi 33 \<le> 2 powi 1024" by (rule power_int_increasing) simp_all
    with alt show ?thesis by simp
  qed
  then have nov: "\<not> 2 powi 1024 \<le> a" by simp
  have "round64 r = Fin (if 0 < r then a else - a)"
    using rne v nov
    by (simp add: round64_def Let_def a_def[symmetric] e_def[symmetric] u_def[symmetric])
  also have "(if 0 < r then a else - a) = r" by (simp add: a_def)
  finally show ?thesis by (simp add: r_def)
qed

lemma round64_large_mib:
  assumes "2 ^ 53 \<le> n"
  shows "round64 (of_int n / of_int (1024 * 1024)) = PosInf
         \<or> (\<exists>q. round64 (of_int n / of_int (1024 * 1024)) = Fin q \<and> 2 ^ 33 \<le> q)"
proof -
  define r :: rat where "r = of_int n / of_int (1024 * 1024)"
  have "(0::int) < 2 ^ 53" by simp
  with assms have npos: "0 < n" by linarith
  then have rpos: "0 < r" by (simp add: r_def)
  define a where "a = \<bar>r\<bar>"
  from rpos have ar: "a = r" by (simp add: a_def)
  from assms have "(of_int (2 ^ 53) :: rat) \<le> of_int n" by (simp only: of_int_le_iff)
  then have "(2::rat) ^ 53 / 2 ^ 20 \<le> r" unfolding r_def by (simp add: divide_right_mono)
  then have age: "2 powi 33 \<le> a" by (simp add: ar)
  from rpos ar have apos: "0 < a" by simp
  define e where "e = float_exponent a"
  define u where "u = max (e - 52) (- 1074)"
  have lo: "2 powi e \<le> a" unfolding e_def using apos by (rule float_exponent_lower)
  have "a < 2 powi (e + 1)" unfolding e_def using apos by (rule float_exponent_upper)
  with age have "(2::rat) powi 33 < 2 powi (e + 1)" by simp
  then have "33 < e + 1" by (rule powi_less_exp)
  then have e33: "33 \<le> e" by simp
  then have u: "u = e - 52" by (simp add: u_def)
  have upos: "(0::rat) < 2 powi u" by (simp add: zero_less_power_int)
  have split: "(2::rat) powi e = 2 ^ 52 * 2 powi u"
    unfolding u using power_int_diff[of "2::rat" e 52] by simp
  define x where "x = a / 2 powi u"
  have "(2::rat) ^ 52 = 2 powi e / 2 powi u" using upos by (simp add: split)
  also have "\<dots> \<le> x" unfolding x_def using lo upos by (simp add: divide_right_mono)
  finally have "(of_int (2 ^ 52) :: rat) \<le> x" by simp
  then have "2 ^ 52 \<le> \<lfloor>x\<rfloor>" by (simp only: le_floor_iff)
  with round_half_even_ge[of x] have m: "2 ^ 52 \<le> round_half_even x" by linarith
  define v :: rat where "v = of_int (round_half_even x) * 2 powi u"
  from m have "(of_int (2 ^ 52) :: rat) \<le> of_int (round_half_even x)"
    by (simp only: of_int_le_iff)
  then have "(2::rat) ^ 52 * 2 powi u \<le> v"
    unfolding v_def using upos by (simp add: mult_right_mono)
  then have "2 powi e \<le> v" by (simp add: split)
  moreover have "(2::rat) powi 33 \<le> 2 powi e" using e33 by (intro power_int_increasing) simp_all
  ultimately have v33: "2 ^ 33 \<le> v" by simp
  have "round64 r = (if 2 powi 1024 \<le> v then PosInf else Fin v)"
    using rpos
    by (simp add: round64_def Let_def a_def[symmetric] e_def[symmetric] u_def[symmetric]
        x_def[symmetric] v_def[symmetric])
  with v33 show ?thesis unfolding r_def by auto
qed

subsection \<open>Download\<close>

lemma over_limit_iff:
  "(of_int m :: rat) < of_int n / of_int (1024 * 1024) \<longleftrightarrow> m * (1024 * 1024) < n"
proof -
  have "(of_int m :: rat) < of_int n / of_int (1024 * 1024)
          \<longleftrightarrow> (of_int m :: rat) * of_int (1024 * 1024) < of_int n"
    by (simp add: pos_less_divide_eq)
  also have "\<dots> \<longleftrightarrow> (of_int (m * (1024 * 1024)) :: rat) < of_int n"
    by (simp only: of_int_mult)
  also have "\<dots> \<longleftrightarrow> m * (1024 * 1024) < n"
    by (rule of_int_less_iff)
  finally show ?thesis .
qed

lemma true_div_exact:
  assumes "\<bar>n\<bar> < 2 ^ 53"
  shows "true_div (VInt n) (1024 * 1024) = Inr (of_int n / of_int (1024 * 1024))"
  using round64_exact_mib[OF assms] by (simp add: true_div_def)

lemma true_div_large:
  assumes "2 ^ 53 \<le> n"
  shows "true_div (VInt n) (1024 * 1024) = Inl OverflowError
         \<or> (\<exists>q. true_div (VInt n) (1024 * 1024) = Inr q \<and> 2 ^ 33 \<le> q)"
  using round64_large_mib[OF assms]
  by (auto simp: true_div_def split: pyfloat.splits)

lemma true_div_raises:
  "true_div v d = Inl e \<Longrightarrow> e = OverflowError \<or> e = ZeroDivisionError \<or> e = TypeError"
  by (auto simp: true_div_def split: pyval.splits if_splits pyfloat.splits)

lemma download_photo_body_missing_key:
  "photo_info ''photo_obj'' = None \<or> photo_info ''filename'' = None
     \<Longrightarrow> \<exists>e. download_photo_body env self photo_info local_path w = (Inl e, w)"
  by (auto simp: download_photo_body_def split: option.splits)

lemma log_add_frame [simp]:
  "w_fs (log_add l m w) = w_fs w" "w_remote (log_add l m w) = w_remote w"
  "w_kr (log_add l m w) = w_kr w" "w_log (log_add l m w) = w_log w @ [(l, m)]"
  by (simp_all add: log_add_def)

lemma call_add_frame [simp]:
  "w_fs (call_add c w) = w_fs w" "w_remote (call_add c w) = w_remote w @ [c]"
  "w_kr (call_add c w) = w_kr w" "w_log (call_add c w) = w_log w"
  by (simp_all add: call_add_def)

lemma download_photo_body_skip:
  assumes "photo_info ''photo_obj'' = Some photo"
    and "photo_info ''filename'' = Some filename"
    and "0 < max_file_size_mb (config self)"
    and "true_div (dict_get photo_info ''size'' (VInt 0)) (1024 * 1024) = Inr q"
    and "of_int (max_file_size_mb (config self)) < q"
  shows "download_photo_body env self photo_info local_path w =
           (Inr False,
            log_add INFO (Skipping filename q (max_file_size_mb (config self)))
              (log_add DEBUG (Downloading filename local_path) w))"
  using assms by (simp add: download_photo_body_def Let_def)

lemma download_photo_body_raise:
  assumes "photo_info ''photo_obj'' = Some photo"
    and "photo_info ''filename'' = Some filename"
    and "0 < max_file_size_mb (config self)"
    and "true_div (dict_get photo_info ''size'' (VInt 0)) (1024 * 1024) = Inl e"
  shows "download_photo_body env self photo_info local_path w =
           (Inl e, log_add DEBUG (Downloading filename local_path) w)"
  using assms by (simp add: download_photo_body_def Let_def)

lemma download_photo_body_over_limit:
  assumes "0 < max_file_size_mb (config self)"
    and "photo_info ''size'' = Some (VInt n)"
    and "max_file_size_mb (config self) * (1024 * 1024) < n"
    and "n < 2 ^ 53"
    and "photo_info ''photo_obj'' = Some photo"
    and "photo_info ''filename'' = Some filename"
  shows "download_photo_body env self photo_info local_path w =
           (Inr False,
            log_add INFO (Skipping filename (of_int n / of_int (1024 * 1024))
                            (max_file_size_mb (config self)))
              (log_add DEBUG (Downloading filename local_path) w))"
proof -
  from assms(1) have "0 < max_file_size_mb (config self) * (1024 * 1024)" by simp
  with assms(3) have "0 < n" by linarith
  with assms(4) have "\<bar>n\<bar> < 2 ^ 53" by simp
  then have "true_div (VInt n) (1024 * 1024) = Inr (of_int n / of_int (1024 * 1024))"
    by (rule true_div_exact)
  with assms(2) have q: "true_div (dict_get photo_info ''size'' (VInt 0)) (1024 * 1024)
                          = Inr (of_int n / of_int (1024 * 1024))"
    by (simp add: dict_get_def)
  from assms(3) have "(of_int (max_file_size_mb (config self)) :: rat)
                        < of_int n / of_int (1024 * 1024)"
    by (simp only: over_limit_iff)
  with download_photo_body_skip[OF assms(5,6,1) q] show ?thesis by simp
qed

text \<open>
  Over the limit, with the size below \<open>2^53\<close> bytes or the limit below \<open>2^33\<close> MB, the
  body of \<open>download_photo\<close> skips or the division raises \<open>OverflowError\<close>.
\<close>

lemma download_photo_body_over_limit_cases:
  assumes "0 < max_file_size_mb (config self)"
    and "photo_info ''size'' = Some (VInt n)"
    and "max_file_size_mb (config self) * (1024 * 1024) < n"
    and "n < 2 ^ 53 \<or> max_file_size_mb (config self) < 2 ^ 33"
    and "photo_info ''photo_obj'' = Some photo"
    and "photo_info ''filename'' = Some filename"
  shows "(\<exists>q. download_photo_body env self photo_info local_path w =
           (Inr False,
            log_add INFO (Skipping filename q (max_file_size_mb (config self)))
              (log_add DEBUG (Downloading filename local_path) w)))
         \<or> download_photo_body env self photo_info local_path w =
             (Inl OverflowError, log_add DEBUG (Downloading filename local_path) w)"
proof (cases "n < 2 ^ 53")
  case True
  from download_photo_body_over_limit[OF assms(1,2,3) True assms(5,6)]
  show ?thesis by blast
next
  case False
  with assms(4) have m: "max_file_size_mb (config self) < 2 ^ 33" by simp
  from False have "2 ^ 53 \<le> n" by simp
  from true_div_large[OF this] assms(2)
  consider "true_div (dict_get photo_info ''size'' (VInt 0)) (1024 * 1024) = Inl OverflowError"
    | q where "true_div (dict_get photo_info ''size'' (VInt 0)) (1024 * 1024) = Inr q"
        "2 ^ 33 \<le> q"
    by (auto simp: dict_get_def)
  then show ?thesis
  proof cases
    case 1
    from download_photo_body_raise[OF assms(5,6,1) 1] show ?thesis by simp
  next
    case 2
    from m have "(of_int (max_file_size_mb (config self)) :: rat) < of_int (2 ^ 33)"
      by (simp only: of_int_less_iff)
    with 2(2) have "of_int (max_file_size_mb (config self)) < q" by simp
    from download_photo_body_skip[OF assms(5,6,1) 2(1) this] show ?thesis by blast
  qed
qed



lemma download_photo_returns:
  "\<exists>b. fst (download_photo env self photo_info local_path w) = Inr b"
proof (cases "download_photo_body env self photo_info local_path w")
  case (Pair r w1)
  then show ?thesis by (cases r) (auto simp: download_photo_def)
qed

lemma download_photo_body_within_limit:
  assumes "photo_info ''photo_obj'' = Some photo"
    and "photo_info ''filename'' = Some filename"
    and "max_file_size_mb (config self) \<le> 0
         \<or> (\<exists>q. true_div (dict_get photo_info ''size'' (VInt 0)) (1024 * 1024) = Inr q
                 \<and> q \<le> of_int (max_file_size_mb (config self)))"
  shows "download_photo_body env self photo_info local_path w =
           (if dry_run (config self)
            then (Inr True,
                  log_add INFO (DryRun filename local_path)
                    (log_add DEBUG (Downloading filename local_path) w))
            else fetch_and_write env photo filename local_path
                   (log_add DEBUG (Downloading filename local_path) w))"
proof (cases "max_file_size_mb (config self) \<le> 0")
  case True
  with assms(1,2) show ?thesis
    by (simp add: download_photo_body_def Let_def)
next
  case False
  with assms(3) obtain q
    where q: "true_div (dict_get photo_info ''size'' (VInt 0)) (1024 * 1024) = Inr q"
      and le: "q \<le> of_int (max_file_size_mb (config self))" by auto
  from le have "\<not> of_int (max_file_size_mb (config self)) < q" by simp
  with False assms(1,2) q show ?thesis
    by (simp add: download_photo_body_def Let_def)
qed


lemma open_example:
  "open_wb example_fs example_env ''/home/u/photos/IMG_0001.JPG'' =
     Inr ([''home'', ''u'', ''photos'', ''IMG_0001.JPG''],
          example_fs([''home'', ''u'', ''photos'', ''IMG_0001.JPG''] \<mapsto> File True []))"
  by (simp add: open_wb_def locate_def Path_def is_absolute_def node_at_def example_fs_def
      example_env_def)

lemma big_photo_quotient:
  "true_div (VInt 9007199254740993) (1024 * 1024) = Inr 8589934592"
  by code_simp

lemma big_photo_keys:
  "big_photo_info ''photo_obj'' = Some (VPhoto example_photo)"
  "big_photo_info ''filename'' = Some (VStr ''IMG_0001.JPG'')"
  "big_photo_info ''size'' = Some (VInt 9007199254740993)"
  "dict_get big_photo_info ''size'' (VInt 0) = VInt 9007199254740993"
  by (simp_all add: big_photo_info_def example_photo_info_def dict_get_def)

lemma big_photo_within:
  "max_file_size_mb (config (big_limit_client\<lparr>config := c\<lparr>max_file_size_mb := 8589934592\<rparr>\<rparr>)) \<le> 0
   \<or> (\<exists>q. true_div (dict_get big_photo_info ''size'' (VInt 0)) (1024 * 1024) = Inr q
           \<and> q \<le> of_int (max_file_size_mb
                  (config (big_limit_client\<lparr>config := c\<lparr>max_file_size_mb := 8589934592\<rparr>\<rparr>))))"
proof -
  have "true_div (dict_get big_photo_info ''size'' (VInt 0)) (1024 * 1024) = Inr 8589934592"
    using big_photo_quotient by (simp only: big_photo_keys)
  moreover have "(8589934592 :: rat) \<le> of_int (max_file_size_mb
                  (config (big_limit_client\<lparr>config := c\<lparr>max_file_size_mb := 8589934592\<rparr>\<rparr>)))"
    by simp
  ultimately show ?thesis by blast
qed

lemma download_photo_skip_result:
  assumes "0 < max_file_size_mb (config self)"
    and "true_div (dict_get photo_info ''size'' (VInt 0)) (1024 * 1024) = Inr q"
    and "of_int (max_file_size_mb (config self)) < q"
  shows "fst (download_photo env self photo_info local_path w) = Inr False"
proof (cases "photo_info ''photo_obj'' = None \<or> photo_info ''filename'' = None")
  case True
  then obtain e where "download_photo_body env self photo_info local_path w = (Inl e, w)"
    using download_photo_body_missing_key by blast
  then show ?thesis by (simp add: download_photo_def)
next
  case False
  then obtain photo filename where k: "photo_info ''photo_obj'' = Some photo"
    "photo_info ''filename'' = Some filename" by auto
  from download_photo_body_skip[OF k assms] show ?thesis by (simp add: download_photo_def)
qed

lemma download_photo_over_limit_result:
  assumes "0 < max_file_size_mb (config self)"
    and "photo_info ''size'' = Some (VInt n)"
    and "max_file_size_mb (config self) * (1024 * 1024) < n"
    and "n < 2 ^ 53 \<or> max_file_size_mb (config self) < 2 ^ 33"
  shows "fst (download_photo env self photo_info local_path w) = Inr False"
proof (cases "photo_info ''photo_obj'' = None \<or> photo_info ''filename'' = None")
  case True
  then obtain e where "download_photo_body env self photo_info local_path w = (Inl e, w)"
    using download_photo_body_missing_key by blast
  then show ?thesis by (simp add: download_photo_def)
next
  case False
  then obtain photo filename where k: "photo_info ''photo_obj'' = Some photo"
    "photo_info ''filename'' = Some filename" by auto
  from download_photo_body_over_limit_cases[OF assms k, of env local_path w]
  show ?thesis by (auto simp: download_photo_def)
qed

lemma example_photo_quotient:
  "true_div (dict_get example_photo_info ''size'' (VInt 0)) (1024 * 1024) = Inr 15"
proof -
  have "\<bar>15728640\<bar> < (2::int) ^ 53" by simp
  from true_div_exact[OF this] show ?thesis
    by (simp add: dict_get_def example_photo_info_def)
qed

subsection \<open>Authentication\<close>

lemma authenticate_returns:
  "\<exists>b. fst (authenticate service self w) = Inr b"
proof (cases "authenticate_body service self w")
  case (fields r self1 w1)
  then show ?thesis by (cases r) (auto simp: authenticate_def)
qed

lemma authenticate_body_true_iff:
  "fst (authenticate_body service self w) = Inr True \<longleftrightarrow>
     (\<exists>u p a. icloud_username (config self) (w_kr w) = Inr u \<and> u \<noteq> []
        \<and> icloud_password (config self) (w_kr w) = Inr p \<and> p \<noteq> []
        \<and> service u p = Inr a \<and> svc_photos a = Inr True)"
  by (auto simp: authenticate_body_def Let_def split: sum.splits)

lemma authenticate_fst:
  "fst (authenticate service self w) =
     (case fst (authenticate_body service self w) of Inl e \<Rightarrow> Inr False | Inr b \<Rightarrow> Inr b)"
proof (cases "authenticate_body service self w")
  case (fields r self1 w1)
  then show ?thesis by (cases r) (auto simp: authenticate_def)
qed

lemma alice_credentials:
  "icloud_username default_config alice_keyring = Inr ''alice''"
  "icloud_password default_config alice_keyring = Inr ''s3cret''"
  by (simp_all add: alice_keyring_def icloud_store_credentials_def set_password_def
      empty_keyring_def icloud_username_def icloud_password_def
      icloud_get_username_from_store_def icloud_get_password_from_store_def
      get_password_def truthy_def or_empty_def ICLOUD_KEYRING_SERVICE_NAME_def Let_def)

subsection \<open>Making directories\<close>

lemma str_replace_absent: "\<not> contains old s \<Longrightarrow> str_replace old new s = s"
proof (induction s)
  case Nil
  then show ?case by (simp add: str_replace.simps[of old new "[]"])
next
  case (Cons c cs)
  from Cons.prems have t: "take (length old) (c # cs) \<noteq> old" and r: "\<not> contains old cs"
    by simp_all
  from t have ne: "old \<noteq> []" by auto
  from ne t have "str_replace old new (c # cs) = c # str_replace old new cs"
    by (simp add: str_replace.simps[of old new "c # cs"])
  with Cons.IH[OF r] show ?case by simp
qed

lemma node_at_root: "node_at fs k = None \<Longrightarrow> k \<noteq> []"
  by (auto simp: node_at_def)

lemma node_at_update_other:
  "node_at fs k = None \<Longrightarrow> j \<noteq> k \<Longrightarrow> node_at (fs(k \<mapsto> n)) j = node_at fs j"
  by (auto simp: node_at_def)

lemma node_at_update_same:
  "node_at fs k = None \<Longrightarrow> node_at (fs(k \<mapsto> n)) k = Some n"
  by (auto simp: node_at_def)

lemma walk_update:
  "walk fs cur cs = Inr d \<Longrightarrow> node_at fs k = None \<Longrightarrow> walk (fs(k \<mapsto> n)) cur cs = Inr d"
proof -
  assume w: "walk fs cur cs = Inr d" and nk: "node_at fs k = None"
  define fs' where "fs' = fs(k \<mapsto> n)"
  have other: "node_at fs' j = node_at fs j" if "j \<noteq> k" for j
    using nk that by (simp add: fs'_def node_at_update_other)
  from w have "walk fs' cur cs = Inr d"
  proof (induction cs arbitrary: cur)
    case Nil
    then show ?case by simp
  next
    case (Cons c cs)
    show ?case
    proof (cases "c = ''..''")
      case True
      with Cons show ?thesis by simp
    next
      case False
      with Cons.prems obtain w where d: "node_at fs (cur @ [c]) = Some (Dir w)"
        and rest: "walk fs (cur @ [c]) cs = Inr d"
        by (auto split: option.splits node.splits)
      from d nk have "cur @ [c] \<noteq> k" by auto
      then have "node_at fs' (cur @ [c]) = Some (Dir w)" using d by (simp add: other)
      with False Cons.IH[OF rest] show ?thesis by simp
    qed
  qed
  then show ?thesis by (simp only: fs'_def)
qed

lemma locate_update:
  "locate fs env p = Inr j \<Longrightarrow> node_at fs k = None \<Longrightarrow> locate (fs(k \<mapsto> n)) env p = Inr j"
  by (auto simp: locate_def Let_def walk_update split: if_splits sum.splits)

lemma os_mkdir_success:
  "os_mkdir fs env p = Inr fs1 \<Longrightarrow>
     \<exists>k. locate fs env p = Inr k \<and> node_at fs k = None \<and> fs1 = fs(k \<mapsto> Dir True)
         \<and> node_at fs (butlast k) = Some (Dir True)"
  by (auto simp: os_mkdir_def split: sum.splits option.splits node.splits if_splits)

lemma os_mkdir_is_dir: "os_mkdir fs env p = Inr fs1 \<Longrightarrow> is_dir fs1 env p"
proof -
  assume "os_mkdir fs env p = Inr fs1"
  then obtain k where l: "locate fs env p = Inr k" and n: "node_at fs k = None"
    and f: "fs1 = fs(k \<mapsto> Dir True)"
    using os_mkdir_success by blast
  from l n have "locate (fs(k \<mapsto> Dir True)) env p = Inr k" by (rule locate_update)
  moreover from n have "node_at (fs(k \<mapsto> Dir True)) k = Some (Dir True)"
    by (rule node_at_update_same)
  ultimately show ?thesis using f by (simp add: is_dir_def)
qed

lemma os_mkdir_keeps: "os_mkdir fs env p = Inr fs1 \<Longrightarrow> fs k = Some n \<Longrightarrow> fs1 k = Some n"
proof -
  assume a: "os_mkdir fs env p = Inr fs1" and b: "fs k = Some n"
  from a obtain j where nj: "node_at fs j = None" and f: "fs1 = fs(j \<mapsto> Dir True)"
    using os_mkdir_success by blast
  from nj have "fs j = None" by (auto simp: node_at_def split: if_splits)
  with b have "k \<noteq> j" by auto
  with f b show ?thesis by simp
qed

lemma mkdir_exist_ok_is_dir: "mkdir_exist_ok fs env p = (Inr u, fs1) \<Longrightarrow> is_dir fs1 env p"
  by (auto simp: mkdir_exist_ok_def os_mkdir_is_dir split: sum.splits if_splits)

lemma mkdir_exist_ok_keeps:
  "mkdir_exist_ok fs env p = (r, fs1) \<Longrightarrow> fs k = Some n \<Longrightarrow> fs1 k = Some n"
  by (auto simp: mkdir_exist_ok_def os_mkdir_keeps split: sum.splits if_splits)

lemma mkdir_parents_is_dir: "mkdir_parents fs env p = (Inr u, fs1) \<Longrightarrow> is_dir fs1 env p"
proof -
  assume a: "mkdir_parents fs env p = (Inr u, fs1)"
  show ?thesis
  proof (cases "os_mkdir fs env p")
    case (Inr f)
    with a have "f = fs1" by (simp add: mkdir_parents.simps[of fs env p])
    with Inr show ?thesis by (simp add: os_mkdir_is_dir)
  next
    case (Inl e)
    show ?thesis
    proof (cases "e = ENOENT")
      case False
      with Inl a show ?thesis
        by (auto simp: mkdir_parents.simps[of fs env p] split: if_splits)
    next
      case True
      with Inl a have "parts p \<noteq> []"
        by (auto simp: mkdir_parents.simps[of fs env p] split: if_splits)
      with True Inl a obtain fs' where "mkdir_exist_ok fs' env p = (Inr u, fs1)"
        by (auto simp: mkdir_parents.simps[of fs env p] split: prod.splits sum.splits)
      then show ?thesis by (rule mkdir_exist_ok_is_dir)
    qed
  qed
qed

lemma mkdir_parents_keeps:
  "mkdir_parents fs env p = (r, fs1) \<Longrightarrow> fs k = Some n \<Longrightarrow> fs1 k = Some n"
proof (induction fs env p arbitrary: r fs1 rule: mkdir_parents.induct)
  case (1 fs env p)
  show ?case
  proof (cases "os_mkdir fs env p")
    case (Inr f)
    with "1.prems"(1) have "f = fs1" by (simp add: mkdir_parents.simps[of fs env p])
    with Inr "1.prems"(2) show ?thesis by (simp add: os_mkdir_keeps)
  next
    case (Inl e)
    show ?thesis
    proof (cases "e = ENOENT \<and> parts p \<noteq> []")
      case False
      with Inl "1.prems" show ?thesis
        by (auto simp: mkdir_parents.simps[of fs env p] split: if_splits)
    next
      case True
      obtain r' fs' where rec: "mkdir_parents fs env (parent p) = (r', fs')"
        by (cases "mkdir_parents fs env (parent p)")
      from "1.IH"[of e r' fs'] True Inl rec "1.prems"(2) have k': "fs' k = Some n" by simp
      show ?thesis
      proof (cases r')
        case (Inl e1)
        with True \<open>os_mkdir fs env p = Inl e\<close> rec "1.prems"(1) have "fs1 = fs'"
          by (simp add: mkdir_parents.simps[of fs env p])
        with k' show ?thesis by simp
      next
        case (Inr u)
        with True \<open>os_mkdir fs env p = Inl e\<close> rec "1.prems"(1)
        have "mkdir_exist_ok fs' env p = (r, fs1)"
          by (simp add: mkdir_parents.simps[of fs env p])
        then show ?thesis using k' by (rule mkdir_exist_ok_keeps)
      qed
    qed
  qed
qed

lemma is_dir_exists:
  "is_dir fs env p \<Longrightarrow> \<exists>k n. locate fs env p = Inr k \<and> node_at fs k = Some n"
  by (auto simp: is_dir_def split: sum.splits option.splits node.splits)

lemma mkdir_parents_existing: "is_dir fs env p \<Longrightarrow> mkdir_parents fs env p = (Inr (), fs)"
proof -
  assume d: "is_dir fs env p"
  then obtain k n where "locate fs env p = Inr k" "node_at fs k = Some n"
    using is_dir_exists by blast
  then have "os_mkdir fs env p = Inl EEXIST" by (simp add: os_mkdir_def)
  with d show ?thesis by (simp add: mkdir_parents.simps[of fs env p])
qed

lemma mkdir_parents_missing:
  "locate fs env p = Inr k \<Longrightarrow> node_at fs k = None
     \<Longrightarrow> node_at fs (butlast k) = Some (Dir True)
     \<Longrightarrow> mkdir_parents fs env p = (Inr (), fs(k \<mapsto> Dir True))"
  by (simp add: mkdir_parents.simps[of fs env p] os_mkdir_def)

lemma joinpath_file:
  "parent (joinpath d (Path ''deletion_tracker.db'')) = d
   \<and> parts (joinpath d (Path ''deletion_tracker.db'')) = parts d @ [''deletion_tracker.db'']
   \<and> anchor (joinpath d (Path ''deletion_tracker.db'')) = anchor d"
  by (simp add: joinpath_def Path_def is_absolute_def parent_def)

subsection \<open>Database path\<close>

lemma database_path_posix:
  assumes "os_name env \<noteq> ''nt''"
  shows "database_path self env fs =
     (let mapped = str_replace ''%LOCALAPPDATA%'' (home env @ ''/.local/share'')
                     (expandvars (environ env) (database_parent_directory self));
          dir = (if is_absolute (Path mapped) then Path mapped
                 else joinpath (sync_directory self) (Path mapped))
      in case mkdir_parents fs env dir of
           (Inl e, fs1) \<Rightarrow> (Inl e, fs1)
         | (Inr u, fs1) \<Rightarrow> (Inr (joinpath dir (Path ''deletion_tracker.db'')), fs1))"
proof (cases "contains ''%LOCALAPPDATA%'' (expandvars (environ env) (database_parent_directory self))")
  case True
  with assms show ?thesis by (simp add: database_path_def Let_def)
next
  case False
  then have "str_replace ''%LOCALAPPDATA%'' (home env @ ''/.local/share'')
               (expandvars (environ env) (database_parent_directory self))
             = expandvars (environ env) (database_parent_directory self)"
    by (rule str_replace_absent)
  with False show ?thesis by (simp add: database_path_def Let_def)
qed

lemma expand_data: "expandvars Map.empty ''.data'' = ''.data''"
  by simp

lemma expand_local: "expandvars Map.empty ''%LOCALAPPDATA%/foto_pool'' = ''%LOCALAPPDATA%/foto_pool''"
  by simp

lemma replace_data:
  "str_replace ''%LOCALAPPDATA%'' ''/home/u/.local/share'' ''.data'' = ''.data''"
  by (rule str_replace_absent) simp

lemma replace_local:
  "str_replace ''%LOCALAPPDATA%'' ''/home/u/.local/share'' ''%LOCALAPPDATA%/foto_pool''
     = ''/home/u/.local/share/foto_pool''"
  by (simp add: str_replace.simps[of _ _ "''%LOCALAPPDATA%/foto_pool''"]
      str_replace_absent)

lemma mkdir_local_example:
  "fst (mkdir_parents example_fs example_env (Path ''/home/u/.local/share/foto_pool'')) = Inr ()"
  by (simp add: mkdir_parents.simps mkdir_exist_ok_def os_mkdir_def locate_def Path_def
      is_absolute_def node_at_def example_fs_def parent_def is_dir_def)

subsection \<open>Stored credentials\<close>


lemma revoked_secret_notifications_disabled:
  "icloud_password (default_config\<lparr>enable_pushover := False\<rparr>)
     (snd (icloud_delete_credentials alice_keyring)) = Inr []"
  by (simp add: alice_keyring_def icloud_store_credentials_def set_password_def
      empty_keyring_def icloud_delete_credentials_def delete_password_def
      icloud_password_def icloud_get_password_from_store_def icloud_username_def
      icloud_get_username_from_store_def get_password_def truthy_def or_empty_def
      ICLOUD_KEYRING_SERVICE_NAME_def Let_def)

subsection \<open>Validation of the example configuration\<close>

lemma example_database_checks:
  "fst (database_checks (default_config\<lparr>enable_pushover := False\<rparr>) example_env example_fs)
     = Inr []"
  by (simp add: database_checks_def database_path_def Let_def default_config_def
      example_env_def mkdir_parents.simps mkdir_exist_ok_def os_mkdir_def locate_def Path_def
      is_absolute_def node_at_def example_fs_def parent_def is_dir_def joinpath_def
      os_access_w_def str_replace_absent split: prod.splits)

subsection \<open>The database checks of the validation\<close>

lemma database_path_makes_parent:
  assumes "database_path self env fs = (Inr p, fs1)"
  shows "is_dir fs1 env (parent p)"
proof -
  from assms obtain d u where mk: "mkdir_parents fs env d = (Inr u, fs1)"
    and p: "p = joinpath d (Path ''deletion_tracker.db'')"
    by (auto simp: database_path_def Let_def split: prod.splits sum.splits if_splits)
  from mk have "is_dir fs1 env d" by (rule mkdir_parents_is_dir)
  with p joinpath_file[of d] show ?thesis by simp
qed

lemma database_checks_eq:
  "database_checks self env fs =
     (case database_path self env fs of
        (Inl e, fs1) \<Rightarrow> (Inr [''Invalid database path configuration: '' @ exc_str e], fs1)
      | (Inr p, fs1) \<Rightarrow>
          (Inr (if \<not> os_access_w fs1 env (parent p)
                then [''Database directory is not writable: '' @ path_str (parent p)]
                else []), fs1))"
proof -
  obtain r fs1 where dp: "database_path self env fs = (r, fs1)"
    by (cases "database_path self env fs")
  show ?thesis
  proof (cases r)
    case (Inl e)
    with dp obtain k q where "e = OSError k q" by (auto dest: database_path_raises)
    with dp Inl show ?thesis by (simp add: database_checks_def database_handler_def)
  next
    case (Inr p)
    with dp have "is_dir fs1 env (parent p)" by (simp add: database_path_makes_parent)
    then have "mkdir_parents fs1 env (parent p) = (Inr (), fs1)"
      by (rule mkdir_parents_existing)
    with dp Inr show ?thesis by (simp add: database_checks_def)
  qed
qed

lemma round64_sixty: "round64 60 = Fin 60"
  by code_simp

lemma rounded_product_example:
  "float_le (float_mul (Fin (3602879701896397 / 36028797018963968)) 60) (Fin 6)"
  by code_simp

lemma locked_parent_example:
  "database_path (default_config\<lparr>database_parent_directory := ''/home/data''\<rparr>)
     example_env example_fs = (Inl (OSError EACCES ''/home/data''), example_fs)"
  by (simp add: database_path_def Let_def example_env_def mkdir_parents.simps os_mkdir_def
      locate_def Path_def is_absolute_def node_at_def example_fs_def is_dir_def path_str_def
      str_replace_absent)

section \<open>Service credentials when notifications are disabled\<close>

text \<open>
  C1. The claim: whenever the service username (password) is unset in the credential store,
  reading it fails, whether notifications are enabled or not. The accessors guard the failure
  with \<open>enable_pushover\<close>: with notifications disabled and an empty store, both accessors
  return the empty string. On the same input \<open>validate\<close> reports both service credentials
  as required.
\<close>

theorem icloud_credentials_unset_notifications_disabled:
  "icloud_username (default_config\<lparr>enable_pushover := False\<rparr>) empty_keyring = Inr []
   \<and> icloud_password (default_config\<lparr>enable_pushover := False\<rparr>) empty_keyring = Inr []
   \<and> fst (validate (default_config\<lparr>enable_pushover := False\<rparr>) example_env empty_keyring
            example_fs)
       = Inl (ValueError (''Configuration errors: ''
               @ ''icloud_username is required (store in keyring), ''
               @ ''icloud_password is required (store in keyring)''))"
proof -
  let ?c = "default_config\<lparr>enable_pushover := False\<rparr>"
  have e: "kr_locked empty_keyring = False" "kr_entries empty_keyring k = None" for k
    by (simp_all add: empty_keyring_def)
  have u: "icloud_username ?c empty_keyring = Inr []"
    by (simp add: icloud_username_def icloud_get_username_from_store_def get_password_def
        e truthy_def or_empty_def)
  have p: "icloud_password ?c empty_keyring = Inr []"
    by (simp add: icloud_password_def icloud_get_password_from_store_def u get_password_def
        e truthy_def or_empty_def)
  obtain r fs1 where db: "database_checks ?c example_env example_fs = (r, fs1)"
    by (cases "database_checks ?c example_env example_fs")
  with example_database_checks have r: "r = Inr []" by simp
  have s: "log_level_errors ?c = []" "album_errors ?c = []" "execution_mode_errors ?c = []"
    "interval_errors ?c = []" "pushover_checks ?c empty_keyring = Inr []"
    by (simp_all add: log_level_errors_def album_errors_def execution_mode_errors_def
        interval_errors_def pushover_checks_def default_config_def round64_sixty)
  have "validation_errors ?c example_env empty_keyring example_fs =
          (Inr [''icloud_username is required (store in keyring)'',
                ''icloud_password is required (store in keyring)''], fs1)"
    by (simp add: validation_errors_def u p try_credential_def db r s)
  then have v: "fst (validate ?c example_env empty_keyring example_fs)
       = Inl (ValueError (''Configuration errors: ''
               @ ''icloud_username is required (store in keyring), ''
               @ ''icloud_password is required (store in keyring)''))"
    by (simp add: validate_def)
  from u p v show ?thesis by (intro conjI)
qed

section \<open>Validation reports every failing check\<close>

text \<open>
  C2. A single call of \<open>validate\<close> evaluates every check: the list \<open>errors\<close> holds the
  message of each check that fails, and when the list is not empty the call raises one
  \<open>ValueError\<close> whose text contains every message of the list. No exception other than this
  one leaves \<open>validate\<close>. The checks are the two service credentials, the log level, the
  two notification credentials when notifications are enabled, the album flags, the
  execution mode, the three interval checks (the product with \<open>60\<close> rounded as Python
  rounds it), a database directory that cannot be made and a database directory that is
  not writable. In particular an invalid log level and an invalid execution mode are both in
  the text of the one failure.
\<close>

theorem validate_reports_every_failing_check:
  "\<exists>errors fs1.
     validation_errors self env kr fs = (Inr errors, fs1)
     \<and> (errors = [] \<longrightarrow> validate self env kr fs = (Inr (), fs1))
     \<and> (errors \<noteq> [] \<longrightarrow>
          (\<exists>m. validate self env kr fs = (Inl (ValueError m), fs1)
               \<and> (\<forall>e \<in> set errors. contains e m)))
     \<and> (\<not> resolvable (icloud_username self kr) \<longrightarrow>
          ''icloud_username is required (store in keyring)'' \<in> set errors)
     \<and> (\<not> resolvable (icloud_password self kr) \<longrightarrow>
          ''icloud_password is required (store in keyring)'' \<in> set errors)
     \<and> (log_level self \<notin> set [''DEBUG'', ''INFO'', ''WARNING'', ''ERROR''] \<longrightarrow>
          ''Invalid LOG_LEVEL: '' @ log_level self \<in> set errors)
     \<and> (enable_pushover self \<and> \<not> resolvable (pushover_api_token self kr) \<longrightarrow>
          ''PUSHOVER_API_TOKEN is required when ENABLE_PUSHOVER=true'' \<in> set errors)
     \<and> (enable_pushover self \<and> \<not> resolvable (pushover_user_key self kr) \<longrightarrow>
          ''PUSHOVER_USER_KEY is required when ENABLE_PUSHOVER=true'' \<in> set errors)
     \<and> (\<not> include_personal_albums self \<and> \<not> include_shared_albums self \<longrightarrow>
          ''At least one of INCLUDE_PERSONAL_ALBUMS or INCLUDE_SHARED_ALBUMS must be true''
            \<in> set errors)
     \<and> (execution_mode self \<notin> set [''single'', ''continuous''] \<longrightarrow>
          ''Invalid EXECUTION_MODE: '' @ execution_mode self
            @ ''. Must be '' @ quoted ''single'' @ '' or '' @ quoted ''continuous''
            \<in> set errors)
     \<and> (float_le (sync_interval_minutes self) (Fin 0) \<longrightarrow>
          ''SYNC_INTERVAL_MINUTES must be bigger than 0 minutes'' \<in> set errors)
     \<and> (float_le (maintenance_interval_hours self) (Fin 0) \<longrightarrow>
          ''MAINTENANCE_INTERVAL_HOURS must be bigger than 0 hours'' \<in> set errors)
     \<and> (float_le (float_mul (maintenance_interval_hours self) 60) (sync_interval_minutes self) \<longrightarrow>
          ''MAINTENANCE_INTERVAL_HOURS * 60 must be bigger than SYNC_INTERVAL_MINUTES''
            \<in> set errors)
     \<and> (\<forall>e fs2. database_path self env fs = (Inl e, fs2) \<longrightarrow>
          ''Invalid database path configuration: '' @ exc_str e \<in> set errors)
     \<and> (\<forall>p fs2. database_path self env fs = (Inr p, fs2)
                 \<and> \<not> os_access_w fs2 env (parent p) \<longrightarrow>
          ''Database directory is not writable: '' @ path_str (parent p) \<in> set errors)
     \<and> (\<forall>es fs2. database_checks self env fs = (Inr es, fs2) \<longrightarrow> set es \<subseteq> set errors)"
proof -
  obtain es fs1 where db: "database_checks self env fs = (Inr es, fs1)"
    using database_checks_returns by blast
  define e1 where "e1 = (if resolvable (icloud_username self kr) then []
                         else [''icloud_username is required (store in keyring)''])"
  define e2 where "e2 = (if resolvable (icloud_password self kr) then []
                         else [''icloud_password is required (store in keyring)''])"
  define e4 where "e4 = (if enable_pushover self then
            (if resolvable (pushover_api_token self kr) then []
             else [''PUSHOVER_API_TOKEN is required when ENABLE_PUSHOVER=true''])
            @ (if resolvable (pushover_user_key self kr) then []
               else [''PUSHOVER_USER_KEY is required when ENABLE_PUSHOVER=true''])
          else [])"
  define errors where "errors = e1 @ e2 @ log_level_errors self @ e4 @ album_errors self
                @ execution_mode_errors self @ interval_errors self @ es"
  have ve: "validation_errors self env kr fs = (Inr errors, fs1)"
    by (simp add: validation_errors_def db pushover_checks_eq errors_def e1_def e2_def e4_def
        try_credential_resolvable[OF icloud_username_raises]
        try_credential_resolvable[OF icloud_password_raises])
  have v0: "errors = [] \<longrightarrow> validate self env kr fs = (Inr (), fs1)"
    by (simp add: validate_def ve)
  have v1: "errors \<noteq> [] \<longrightarrow>
          (\<exists>m. validate self env kr fs = (Inl (ValueError m), fs1)
               \<and> (\<forall>e \<in> set errors. contains e m))"
  proof
    assume ne: "errors \<noteq> []"
    let ?m = "''Configuration errors: '' @ join '', '' errors"
    from ne have "validate self env kr fs = (Inl (ValueError ?m), fs1)"
      by (simp add: validate_def ve)
    moreover have "\<forall>e \<in> set errors. contains e ?m"
      by (intro ballI contains_append_left contains_join)
    ultimately show "\<exists>m. validate self env kr fs = (Inl (ValueError m), fs1)
               \<and> (\<forall>e \<in> set errors. contains e m)" by blast
  qed
  have c1: "\<not> resolvable (icloud_username self kr) \<longrightarrow>
          ''icloud_username is required (store in keyring)'' \<in> set errors"
    by (simp add: errors_def e1_def)
  have c2: "\<not> resolvable (icloud_password self kr) \<longrightarrow>
          ''icloud_password is required (store in keyring)'' \<in> set errors"
    by (simp add: errors_def e2_def)
  have c3: "log_level self \<notin> set [''DEBUG'', ''INFO'', ''WARNING'', ''ERROR''] \<longrightarrow>
          ''Invalid LOG_LEVEL: '' @ log_level self \<in> set errors"
    by (simp add: errors_def log_level_errors_def)
  have c4: "enable_pushover self \<and> \<not> resolvable (pushover_api_token self kr) \<longrightarrow>
          ''PUSHOVER_API_TOKEN is required when ENABLE_PUSHOVER=true'' \<in> set errors"
    by (simp add: errors_def e4_def)
  have c5: "enable_pushover self \<and> \<not> resolvable (pushover_user_key self kr) \<longrightarrow>
          ''PUSHOVER_USER_KEY is required when ENABLE_PUSHOVER=true'' \<in> set errors"
    by (simp add: errors_def e4_def)
  have c6: "\<not> include_personal_albums self \<and> \<not> include_shared_albums self \<longrightarrow>
          ''At least one of INCLUDE_PERSONAL_ALBUMS or INCLUDE_SHARED_ALBUMS must be true''
            \<in> set errors"
    by (simp add: errors_def album_errors_def)
  have c7: "execution_mode self \<notin> set [''single'', ''continuous''] \<longrightarrow>
          ''Invalid EXECUTION_MODE: '' @ execution_mode self
            @ ''. Must be '' @ quoted ''single'' @ '' or '' @ quoted ''continuous''
            \<in> set errors"
    by (simp add: errors_def execution_mode_errors_def)
  have c8: "float_le (sync_interval_minutes self) (Fin 0) \<longrightarrow>
          ''SYNC_INTERVAL_MINUTES must be bigger than 0 minutes'' \<in> set errors"
    by (simp add: errors_def interval_errors_def)
  have c9: "float_le (maintenance_interval_hours self) (Fin 0) \<longrightarrow>
          ''MAINTENANCE_INTERVAL_HOURS must be bigger than 0 hours'' \<in> set errors"
    by (simp add: errors_def interval_errors_def)
  have c10: "float_le (float_mul (maintenance_interval_hours self) 60) (sync_interval_minutes self) \<longrightarrow>
          ''MAINTENANCE_INTERVAL_HOURS * 60 must be bigger than SYNC_INTERVAL_MINUTES''
            \<in> set errors"
    by (simp add: errors_def interval_errors_def)
  have c11: "\<forall>es' fs2. database_checks self env fs = (Inr es', fs2) \<longrightarrow> set es' \<subseteq> set errors"
    by (auto simp: db errors_def)
  have c12: "\<forall>e fs2. database_path self env fs = (Inl e, fs2) \<longrightarrow>
          ''Invalid database path configuration: '' @ exc_str e \<in> set errors"
  proof (intro allI impI)
    fix e fs2
    assume "database_path self env fs = (Inl e, fs2)"
    with db database_checks_eq[of self env fs]
    have "es = [''Invalid database path configuration: '' @ exc_str e]" by simp
    then show "''Invalid database path configuration: '' @ exc_str e \<in> set errors"
      by (simp add: errors_def)
  qed
  have c13: "\<forall>p fs2. database_path self env fs = (Inr p, fs2)
                 \<and> \<not> os_access_w fs2 env (parent p) \<longrightarrow>
          ''Database directory is not writable: '' @ path_str (parent p) \<in> set errors"
  proof (intro allI impI)
    fix p fs2
    assume "database_path self env fs = (Inr p, fs2) \<and> \<not> os_access_w fs2 env (parent p)"
    with db database_checks_eq[of self env fs]
    have "es = [''Database directory is not writable: '' @ path_str (parent p)]" by simp
    then show "''Database directory is not writable: '' @ path_str (parent p) \<in> set errors"
      by (simp add: errors_def)
  qed
  show ?thesis
    by (rule exI[of _ errors], rule exI[of _ fs1], intro conjI)
       (fact ve v0 v1 c1 c2 c3 c4 c5 c6 c7 c8 c9 c10 c12 c13 c11)+
qed

theorem validate_reports_every_failing_check_witness:
  "(log_level (default_config\<lparr>log_level := ''VERBOSE'', execution_mode := ''daemon''\<rparr>)
     \<notin> set [''DEBUG'', ''INFO'', ''WARNING'', ''ERROR'']
   \<and> execution_mode (default_config\<lparr>log_level := ''VERBOSE'', execution_mode := ''daemon''\<rparr>)
     \<notin> set [''single'', ''continuous'']
   \<and> (\<exists>m fs1.
        validate (default_config\<lparr>log_level := ''VERBOSE'', execution_mode := ''daemon''\<rparr>)
          example_env empty_keyring example_fs = (Inl (ValueError m), fs1)
        \<and> contains ''Invalid LOG_LEVEL: VERBOSE'' m
        \<and> contains (''Invalid EXECUTION_MODE: daemon. Must be '' @ quoted ''single''
                     @ '' or '' @ quoted ''continuous'') m))
   \<and> (float_le (float_mul (maintenance_interval_hours
        (default_config\<lparr>sync_interval_minutes := Fin 6,
           maintenance_interval_hours := Fin (3602879701896397 / 36028797018963968)\<rparr>)) 60)
      (sync_interval_minutes
        (default_config\<lparr>sync_interval_minutes := Fin 6,
           maintenance_interval_hours := Fin (3602879701896397 / 36028797018963968)\<rparr>))
   \<and> (\<exists>m fs1.
        validate (default_config\<lparr>sync_interval_minutes := Fin 6,
                    maintenance_interval_hours := Fin (3602879701896397 / 36028797018963968)\<rparr>)
          example_env empty_keyring example_fs = (Inl (ValueError m), fs1)
        \<and> contains ''MAINTENANCE_INTERVAL_HOURS * 60 must be bigger than SYNC_INTERVAL_MINUTES'' m))
   \<and> (database_path (default_config\<lparr>database_parent_directory := ''/home/data''\<rparr>)
       example_env example_fs = (Inl (OSError EACCES ''/home/data''), example_fs)
   \<and> (\<exists>m fs1.
        validate (default_config\<lparr>database_parent_directory := ''/home/data''\<rparr>)
          example_env empty_keyring example_fs = (Inl (ValueError m), fs1)
        \<and> contains (''Invalid database path configuration: ''
                     @ exc_str (OSError EACCES ''/home/data'')) m))"
proof -
  have part1: "log_level (default_config\<lparr>log_level := ''VERBOSE'', execution_mode := ''daemon''\<rparr>)
     \<notin> set [''DEBUG'', ''INFO'', ''WARNING'', ''ERROR'']
   \<and> execution_mode (default_config\<lparr>log_level := ''VERBOSE'', execution_mode := ''daemon''\<rparr>)
     \<notin> set [''single'', ''continuous'']
   \<and> (\<exists>m fs1.
        validate (default_config\<lparr>log_level := ''VERBOSE'', execution_mode := ''daemon''\<rparr>)
          example_env empty_keyring example_fs = (Inl (ValueError m), fs1)
        \<and> contains ''Invalid LOG_LEVEL: VERBOSE'' m
        \<and> contains (''Invalid EXECUTION_MODE: daemon. Must be '' @ quoted ''single''
                     @ '' or '' @ quoted ''continuous'') m)"
  proof -
    let ?c = "default_config\<lparr>log_level := ''VERBOSE'', execution_mode := ''daemon''\<rparr>"
    have h1: "log_level ?c \<notin> set [''DEBUG'', ''INFO'', ''WARNING'', ''ERROR'']" by simp
    have h2: "execution_mode ?c \<notin> set [''single'', ''continuous'']" by simp
    from validate_reports_every_failing_check[of ?c example_env empty_keyring example_fs]
    show ?thesis
    proof (elim exE conjE)
      fix errors fs1
      assume v1: "errors \<noteq> [] \<longrightarrow>
            (\<exists>m. validate ?c example_env empty_keyring example_fs = (Inl (ValueError m), fs1)
                 \<and> (\<forall>e \<in> set errors. contains e m))"
        and c3: "log_level ?c \<notin> set [''DEBUG'', ''INFO'', ''WARNING'', ''ERROR''] \<longrightarrow>
            ''Invalid LOG_LEVEL: '' @ log_level ?c \<in> set errors"
        and c7: "execution_mode ?c \<notin> set [''single'', ''continuous''] \<longrightarrow>
            ''Invalid EXECUTION_MODE: '' @ execution_mode ?c
              @ ''. Must be '' @ quoted ''single'' @ '' or '' @ quoted ''continuous''
              \<in> set errors"
      from c3 h1 have "''Invalid LOG_LEVEL: '' @ log_level ?c \<in> set errors" by (rule mp)
      then have m3: "''Invalid LOG_LEVEL: VERBOSE'' \<in> set errors" by simp
      from c7 h2 have "''Invalid EXECUTION_MODE: '' @ execution_mode ?c
              @ ''. Must be '' @ quoted ''single'' @ '' or '' @ quoted ''continuous''
              \<in> set errors" by (rule mp)
      then have m7: "''Invalid EXECUTION_MODE: daemon. Must be '' @ quoted ''single''
                       @ '' or '' @ quoted ''continuous'' \<in> set errors" by simp
      from m3 have "errors \<noteq> []" by (cases errors) simp_all
      with v1 have "\<exists>m. validate ?c example_env empty_keyring example_fs = (Inl (ValueError m), fs1)
                 \<and> (\<forall>e \<in> set errors. contains e m)" by (rule mp)
      then obtain m where
        v: "validate ?c example_env empty_keyring example_fs = (Inl (ValueError m), fs1)"
        and all: "\<forall>e \<in> set errors. contains e m" by (elim exE conjE)
      from all m3 have k3: "contains ''Invalid LOG_LEVEL: VERBOSE'' m" by (rule bspec)
      from all m7 have k7: "contains (''Invalid EXECUTION_MODE: daemon. Must be '' @ quoted ''single''
                       @ '' or '' @ quoted ''continuous'') m" by (rule bspec)
      show ?thesis
        by (intro conjI exI) (fact h1 h2 v k3 k7)+
    qed
  qed
  have part2: "float_le (float_mul (maintenance_interval_hours
        (default_config\<lparr>sync_interval_minutes := Fin 6,
           maintenance_interval_hours := Fin (3602879701896397 / 36028797018963968)\<rparr>)) 60)
      (sync_interval_minutes
        (default_config\<lparr>sync_interval_minutes := Fin 6,
           maintenance_interval_hours := Fin (3602879701896397 / 36028797018963968)\<rparr>))
   \<and> (\<exists>m fs1.
        validate (default_config\<lparr>sync_interval_minutes := Fin 6,
                    maintenance_interval_hours := Fin (3602879701896397 / 36028797018963968)\<rparr>)
          example_env empty_keyring example_fs = (Inl (ValueError m), fs1)
        \<and> contains ''MAINTENANCE_INTERVAL_HOURS * 60 must be bigger than SYNC_INTERVAL_MINUTES'' m)"
  proof -
    let ?c = "default_config\<lparr>sync_interval_minutes := Fin 6,
                maintenance_interval_hours := Fin (3602879701896397 / 36028797018963968)\<rparr>"
    have h: "float_le (float_mul (maintenance_interval_hours ?c) 60) (sync_interval_minutes ?c)"
      using rounded_product_example by simp
    from validate_reports_every_failing_check[of ?c example_env empty_keyring example_fs]
    show ?thesis
    proof (elim exE conjE)
      fix errors fs1
      assume v1: "errors \<noteq> [] \<longrightarrow>
            (\<exists>m. validate ?c example_env empty_keyring example_fs = (Inl (ValueError m), fs1)
                 \<and> (\<forall>e \<in> set errors. contains e m))"
        and c10: "float_le (float_mul (maintenance_interval_hours ?c) 60)
                    (sync_interval_minutes ?c) \<longrightarrow>
            ''MAINTENANCE_INTERVAL_HOURS * 60 must be bigger than SYNC_INTERVAL_MINUTES''
              \<in> set errors"
      from c10 h
      have m10: "''MAINTENANCE_INTERVAL_HOURS * 60 must be bigger than SYNC_INTERVAL_MINUTES''
              \<in> set errors" by (rule mp)
      then have "errors \<noteq> []" by (cases errors) simp_all
      with v1 have "\<exists>m. validate ?c example_env empty_keyring example_fs = (Inl (ValueError m), fs1)
                 \<and> (\<forall>e \<in> set errors. contains e m)" by (rule mp)
      then obtain m where
        v: "validate ?c example_env empty_keyring example_fs = (Inl (ValueError m), fs1)"
        and all: "\<forall>e \<in> set errors. contains e m" by (elim exE conjE)
      from all m10
      have k: "contains ''MAINTENANCE_INTERVAL_HOURS * 60 must be bigger than SYNC_INTERVAL_MINUTES'' m"
        by (rule bspec)
      show ?thesis by (intro conjI exI) (fact h v k)+
    qed
  qed
  have part3: "database_path (default_config\<lparr>database_parent_directory := ''/home/data''\<rparr>)
       example_env example_fs = (Inl (OSError EACCES ''/home/data''), example_fs)
   \<and> (\<exists>m fs1.
        validate (default_config\<lparr>database_parent_directory := ''/home/data''\<rparr>)
          example_env empty_keyring example_fs = (Inl (ValueError m), fs1)
        \<and> contains (''Invalid database path configuration: ''
                     @ exc_str (OSError EACCES ''/home/data'')) m)"
  proof -
    let ?c = "default_config\<lparr>database_parent_directory := ''/home/data''\<rparr>"
    have h: "database_path ?c example_env example_fs
               = (Inl (OSError EACCES ''/home/data''), example_fs)"
      by (simp add: locked_parent_example)
    from validate_reports_every_failing_check[of ?c example_env empty_keyring example_fs]
    show ?thesis
    proof (elim exE conjE)
      fix errors fs1
      assume v1: "errors \<noteq> [] \<longrightarrow>
            (\<exists>m. validate ?c example_env empty_keyring example_fs = (Inl (ValueError m), fs1)
                 \<and> (\<forall>e \<in> set errors. contains e m))"
        and c12: "\<forall>e fs2. database_path ?c example_env example_fs = (Inl e, fs2) \<longrightarrow>
            ''Invalid database path configuration: '' @ exc_str e \<in> set errors"
      from c12 h
      have m12: "''Invalid database path configuration: ''
                   @ exc_str (OSError EACCES ''/home/data'') \<in> set errors"
        by (elim allE impE) assumption+
      then have "errors \<noteq> []" by (cases errors) simp_all
      with v1 have "\<exists>m. validate ?c example_env empty_keyring example_fs = (Inl (ValueError m), fs1)
                 \<and> (\<forall>e \<in> set errors. contains e m)" by (rule mp)
      then obtain m where
        v: "validate ?c example_env empty_keyring example_fs = (Inl (ValueError m), fs1)"
        and all: "\<forall>e \<in> set errors. contains e m" by (elim exE conjE)
      from all m12
      have k: "contains (''Invalid database path configuration: ''
                       @ exc_str (OSError EACCES ''/home/data'')) m"
        by (rule bspec)
      show ?thesis by (intro conjI exI) (fact h v k)+
    qed
  qed
  from part1 conjI[OF part2 part3] show ?thesis by (rule conjI)
qed

section \<open>Assets over the size limit\<close>

text \<open>
  C3. The claim: for every asset whose size exceeds a positive \<open>max_file_size_mb\<close>,
  \<open>download_photo\<close> skips and leaves the file system untouched. The code compares the
  binary64 quotient of the size by \<open>1024 * 1024\<close> with the limit. For a size of
  \<open>2^53 + 1\<close> bytes the quotient is rounded to \<open>2^33\<close>, which is not over a limit of
  \<open>2^33\<close> MB: the photo is fetched and written, as the first theorem shows.

  As amended: when a positive \<open>max_file_size_mb\<close> is configured, the size of the asset in
  bytes exceeds it, and the size is below \<open>2^53\<close> bytes or the limit is below \<open>2^33\<close> MB,
  \<open>download_photo\<close> returns False, the file system is the one before the call and the
  remote service is not called; for an asset below \<open>2^53\<close> bytes that has its handle and
  file name, the call logs the download attempt and the skip, and nothing else.
\<close>

theorem download_photo_oversized_counterexample:
  "0 < max_file_size_mb (config big_limit_client)
   \<and> big_photo_info ''size'' = Some (VInt 9007199254740993)
   \<and> max_file_size_mb (config big_limit_client) * (1024 * 1024) < 9007199254740993
   \<and> fst (download_photo example_env big_limit_client big_photo_info
            ''/home/u/photos/IMG_0001.JPG'' example_world) = Inr True
   \<and> w_remote (snd (download_photo example_env big_limit_client big_photo_info
            ''/home/u/photos/IMG_0001.JPG'' example_world)) = [Download ''A1'']
   \<and> example_fs [''home'', ''u'', ''photos'', ''IMG_0001.JPG''] = None
   \<and> w_fs (snd (download_photo example_env big_limit_client big_photo_info
            ''/home/u/photos/IMG_0001.JPG'' example_world))
        [''home'', ''u'', ''photos'', ''IMG_0001.JPG''] = Some (File True ''JPEGDATA'')"
proof -
  let ?p = "''/home/u/photos/IMG_0001.JPG''"
  let ?k = "[''home'', ''u'', ''photos'', ''IMG_0001.JPG'']"
  have c: "big_limit_client = big_limit_client\<lparr>config := default_config\<lparr>max_file_size_mb := 8589934592\<rparr>\<rparr>"
    by (simp add: big_limit_client_def)
  have w: "max_file_size_mb (config big_limit_client) \<le> 0
   \<or> (\<exists>q. true_div (dict_get big_photo_info ''size'' (VInt 0)) (1024 * 1024) = Inr q
           \<and> q \<le> of_int (max_file_size_mb (config big_limit_client)))"
    using big_photo_within[of default_config] c by simp
  have b: "download_photo_body example_env big_limit_client big_photo_info ?p example_world =
           fetch_and_write example_env (VPhoto example_photo) (VStr ''IMG_0001.JPG'') ?p
             (log_add DEBUG (Downloading (VStr ''IMG_0001.JPG'') ?p) example_world)"
    using download_photo_body_within_limit[OF big_photo_keys(1,2) w, of example_env ?p example_world]
    by (simp add: big_limit_client_def default_config_def)
  have f: "fetch_and_write example_env (VPhoto example_photo) (VStr ''IMG_0001.JPG'') ?p
             (log_add DEBUG (Downloading (VStr ''IMG_0001.JPG'') ?p) example_world)
           = (Inr True,
              log_add DEBUG (Downloaded (VStr ''IMG_0001.JPG''))
                (call_add (Download ''A1'')
                   (log_add DEBUG (Downloading (VStr ''IMG_0001.JPG'') ?p) example_world)
                 \<lparr>w_fs := write_file (example_fs(?k \<mapsto> File True [])) ?k ''JPEGDATA''\<rparr>))"
    using open_example
    by (simp add: fetch_and_write_def Let_def example_photo_def example_world_def)
  have d: "download_photo example_env big_limit_client big_photo_info ?p example_world
           = (Inr True,
              log_add DEBUG (Downloaded (VStr ''IMG_0001.JPG''))
                (call_add (Download ''A1'')
                   (log_add DEBUG (Downloading (VStr ''IMG_0001.JPG'') ?p) example_world)
                 \<lparr>w_fs := write_file (example_fs(?k \<mapsto> File True [])) ?k ''JPEGDATA''\<rparr>))"
    by (simp add: download_photo_def b f)
  have h1: "0 < max_file_size_mb (config big_limit_client)"
    by (simp add: big_limit_client_def)
  have h3: "max_file_size_mb (config big_limit_client) * (1024 * 1024) < 9007199254740993"
    by (simp add: big_limit_client_def)
  have r: "fst (download_photo example_env big_limit_client big_photo_info ?p example_world)
             = Inr True"
    by (simp add: d)
  have rc: "w_remote (snd (download_photo example_env big_limit_client big_photo_info ?p
                example_world)) = [Download ''A1'']"
    unfolding d by (simp add: example_world_def)
  have n: "example_fs ?k = None" by (simp add: example_fs_def)
  have wf: "w_fs (snd (download_photo example_env big_limit_client big_photo_info ?p
                example_world)) ?k = Some (File True ''JPEGDATA'')"
    by (simp add: d write_file_def)
  show ?thesis by (intro conjI) (fact h1 big_photo_keys(3) h3 r rc n wf)+
qed

theorem download_photo_skips_oversized:
  assumes "0 < max_file_size_mb (config self)"
    and "photo_info ''size'' = Some (VInt n)"
    and "max_file_size_mb (config self) * (1024 * 1024) < n"
    and "n < 2 ^ 53 \<or> max_file_size_mb (config self) < 2 ^ 33"
  shows "fst (download_photo env self photo_info local_path w) = Inr False
    \<and> w_fs (snd (download_photo env self photo_info local_path w)) = w_fs w
    \<and> w_remote (snd (download_photo env self photo_info local_path w)) = w_remote w
    \<and> (\<forall>photo filename.
          photo_info ''photo_obj'' = Some photo \<and> photo_info ''filename'' = Some filename
          \<and> n < 2 ^ 53 \<longrightarrow>
          w_log (snd (download_photo env self photo_info local_path w)) =
            w_log w @ [(DEBUG, Downloading filename local_path),
                       (INFO, Skipping filename (of_int n / of_int (1024 * 1024))
                                (max_file_size_mb (config self)))])"
proof (cases "photo_info ''photo_obj'' = None \<or> photo_info ''filename'' = None")
  case True
  then obtain e where "download_photo_body env self photo_info local_path w = (Inl e, w)"
    using download_photo_body_missing_key by blast
  then have "download_photo env self photo_info local_path w =
               (Inr False, log_add ERROR
                  (DownloadError (dict_get photo_info ''filename'' (VStr ''unknown'')) e) w)"
    by (simp add: download_photo_def)
  with True show ?thesis by auto
next
  case False
  then obtain photo filename where k: "photo_info ''photo_obj'' = Some photo"
    "photo_info ''filename'' = Some filename" by auto
  from download_photo_body_over_limit_cases[OF assms k, of env local_path w]
  have r: "fst (download_photo env self photo_info local_path w) = Inr False
    \<and> w_fs (snd (download_photo env self photo_info local_path w)) = w_fs w
    \<and> w_remote (snd (download_photo env self photo_info local_path w)) = w_remote w"
    by (auto simp: download_photo_def)
  have l: "w_log (snd (download_photo env self photo_info local_path w)) =
            w_log w @ [(DEBUG, Downloading filename local_path),
                       (INFO, Skipping filename (of_int n / of_int (1024 * 1024))
                                (max_file_size_mb (config self)))]"
    if "n < 2 ^ 53"
    using download_photo_body_over_limit[OF assms(1,2,3) that k, of env local_path w]
    by (simp add: download_photo_def)
  from r l k show ?thesis by simp
qed

theorem download_photo_skips_oversized_witness:
  "0 < max_file_size_mb (config (example_client\<lparr>config := default_config\<lparr>max_file_size_mb := 10\<rparr>\<rparr>))
   \<and> example_photo_info ''size'' = Some (VInt 15728640)
   \<and> max_file_size_mb (config (example_client\<lparr>config := default_config\<lparr>max_file_size_mb := 10\<rparr>\<rparr>))
         * (1024 * 1024) < 15728640
   \<and> (15728640 < (2::int) ^ 53
        \<or> max_file_size_mb (config (example_client\<lparr>config :=
              default_config\<lparr>max_file_size_mb := 10\<rparr>\<rparr>)) < 2 ^ 33)
   \<and> fst (download_photo example_env
             (example_client\<lparr>config := default_config\<lparr>max_file_size_mb := 10\<rparr>\<rparr>)
             example_photo_info ''/home/u/photos/IMG_0001.JPG'' example_world) = Inr False
   \<and> w_fs (snd (download_photo example_env
             (example_client\<lparr>config := default_config\<lparr>max_file_size_mb := 10\<rparr>\<rparr>)
             example_photo_info ''/home/u/photos/IMG_0001.JPG'' example_world)) = example_fs
   \<and> w_remote (snd (download_photo example_env
             (example_client\<lparr>config := default_config\<lparr>max_file_size_mb := 10\<rparr>\<rparr>)
             example_photo_info ''/home/u/photos/IMG_0001.JPG'' example_world)) = []"
proof -
  let ?c = "example_client\<lparr>config := default_config\<lparr>max_file_size_mb := 10\<rparr>\<rparr>"
  have h1: "0 < max_file_size_mb (config ?c)" by simp
  have h2: "example_photo_info ''size'' = Some (VInt 15728640)"
    by (simp add: example_photo_info_def)
  have h3: "max_file_size_mb (config ?c) * (1024 * 1024) < 15728640" by simp
  have h4: "15728640 < (2::int) ^ 53 \<or> max_file_size_mb (config ?c) < 2 ^ 33" by simp
  note T = download_photo_skips_oversized[where self = "?c"
      and photo_info = example_photo_info and n = 15728640 and env = example_env
      and local_path = "''/home/u/photos/IMG_0001.JPG''" and w = example_world, OF h1 h2 h3 h4]
  from T have r: "fst (download_photo example_env ?c example_photo_info
                    ''/home/u/photos/IMG_0001.JPG'' example_world) = Inr False"
    by (rule conjunct1)
  from T have f: "w_fs (snd (download_photo example_env ?c example_photo_info
                    ''/home/u/photos/IMG_0001.JPG'' example_world)) = example_fs"
    by (simp add: example_world_def)
  from T have c: "w_remote (snd (download_photo example_env ?c example_photo_info
                    ''/home/u/photos/IMG_0001.JPG'' example_world)) = []"
    by (simp add: example_world_def)
  show ?thesis by (intro conjI) (fact h1 h2 h3 h4 r f c)+
qed

section \<open>Dry run\<close>



section \<open>The size limit is checked before the dry run\<close>

text \<open>
  C5. The claim: whenever \<open>dry_run\<close> is set and the size of the asset is over a positive
  limit, the result is the skip and not the dry-run result. The size check does come first,
  but it compares the binary64 quotient: for a size of \<open>2^53 + 1\<close> bytes and a limit of
  \<open>2^33\<close> MB the check does not fire and the call returns the dry-run result, as the first
  theorem shows.

  As amended: when \<open>dry_run\<close> is set, the asset is over a positive size limit, and the
  size is below \<open>2^53\<close> bytes or the limit is below \<open>2^33\<close> MB, the result is False, the
  dry run is not logged, and neither the file system nor the remote service is touched; for
  a size below \<open>2^53\<close> bytes the call logs the download attempt and the skip.
\<close>

theorem download_photo_dry_run_oversized_counterexample:
  "dry_run (config (big_limit_client\<lparr>config :=
       default_config\<lparr>dry_run := True, max_file_size_mb := 8589934592\<rparr>\<rparr>))
   \<and> 0 < max_file_size_mb (config (big_limit_client\<lparr>config :=
       default_config\<lparr>dry_run := True, max_file_size_mb := 8589934592\<rparr>\<rparr>))
   \<and> big_photo_info ''size'' = Some (VInt 9007199254740993)
   \<and> max_file_size_mb (config (big_limit_client\<lparr>config :=
       default_config\<lparr>dry_run := True, max_file_size_mb := 8589934592\<rparr>\<rparr>)) * (1024 * 1024)
         < 9007199254740993
   \<and> download_photo example_env
        (big_limit_client\<lparr>config :=
           default_config\<lparr>dry_run := True, max_file_size_mb := 8589934592\<rparr>\<rparr>)
        big_photo_info ''/home/u/photos/IMG_0001.JPG'' example_world =
       (Inr True,
        log_add INFO (DryRun (VStr ''IMG_0001.JPG'') ''/home/u/photos/IMG_0001.JPG'')
          (log_add DEBUG (Downloading (VStr ''IMG_0001.JPG'') ''/home/u/photos/IMG_0001.JPG'')
             example_world))"
proof -
  let ?c = "big_limit_client\<lparr>config :=
              default_config\<lparr>dry_run := True, max_file_size_mb := 8589934592\<rparr>\<rparr>"
  let ?p = "''/home/u/photos/IMG_0001.JPG''"
  have h1: "dry_run (config ?c)" by simp
  have h2: "0 < max_file_size_mb (config ?c)" by simp
  have h4: "max_file_size_mb (config ?c) * (1024 * 1024) < 9007199254740993" by simp
  have w: "max_file_size_mb (config ?c) \<le> 0
   \<or> (\<exists>q. true_div (dict_get big_photo_info ''size'' (VInt 0)) (1024 * 1024) = Inr q
           \<and> q \<le> of_int (max_file_size_mb (config ?c)))"
    using big_photo_within[of "default_config\<lparr>dry_run := True\<rparr>"] by simp
  have "download_photo_body example_env ?c big_photo_info ?p example_world =
          (Inr True,
           log_add INFO (DryRun (VStr ''IMG_0001.JPG'') ?p)
             (log_add DEBUG (Downloading (VStr ''IMG_0001.JPG'') ?p) example_world))"
    using download_photo_body_within_limit[OF big_photo_keys(1,2) w, of example_env ?p example_world]
    by simp
  then have r: "download_photo example_env ?c big_photo_info ?p example_world =
          (Inr True,
           log_add INFO (DryRun (VStr ''IMG_0001.JPG'') ?p)
             (log_add DEBUG (Downloading (VStr ''IMG_0001.JPG'') ?p) example_world))"
    by (simp add: download_photo_def)
  show ?thesis by (intro conjI) (fact h1 h2 big_photo_keys(3) h4 r)+
qed

theorem download_photo_size_check_precedes_dry_run:
  assumes "dry_run (config self)"
    and "0 < max_file_size_mb (config self)"
    and "photo_info ''photo_obj'' = Some photo"
    and "photo_info ''filename'' = Some filename"
    and "photo_info ''size'' = Some (VInt n)"
    and "max_file_size_mb (config self) * (1024 * 1024) < n"
    and "n < 2 ^ 53 \<or> max_file_size_mb (config self) < 2 ^ 33"
  shows "fst (download_photo env self photo_info local_path w) = Inr False
    \<and> (INFO, DryRun filename local_path)
         \<notin> set (drop (length (w_log w))
                  (w_log (snd (download_photo env self photo_info local_path w))))
    \<and> w_fs (snd (download_photo env self photo_info local_path w)) = w_fs w
    \<and> w_remote (snd (download_photo env self photo_info local_path w)) = w_remote w
    \<and> (n < 2 ^ 53 \<longrightarrow>
         download_photo env self photo_info local_path w =
           (Inr False,
            log_add INFO (Skipping filename (of_int n / of_int (1024 * 1024))
                            (max_file_size_mb (config self)))
              (log_add DEBUG (Downloading filename local_path) w)))"
proof -
  from download_photo_body_over_limit_cases[OF assms(2,5,6,7,3,4), of env local_path w]
  have r: "fst (download_photo env self photo_info local_path w) = Inr False
    \<and> (INFO, DryRun filename local_path)
         \<notin> set (drop (length (w_log w))
                  (w_log (snd (download_photo env self photo_info local_path w))))
    \<and> w_fs (snd (download_photo env self photo_info local_path w)) = w_fs w
    \<and> w_remote (snd (download_photo env self photo_info local_path w)) = w_remote w"
    by (auto simp: download_photo_def)
  have l: "download_photo env self photo_info local_path w =
           (Inr False,
            log_add INFO (Skipping filename (of_int n / of_int (1024 * 1024))
                            (max_file_size_mb (config self)))
              (log_add DEBUG (Downloading filename local_path) w))"
    if "n < 2 ^ 53"
    using download_photo_body_over_limit[OF assms(2,5,6) that assms(3,4), of env local_path w]
    by (simp add: download_photo_def)
  from r l show ?thesis by simp
qed

theorem download_photo_size_check_precedes_dry_run_witness:
  "dry_run (config (example_client\<lparr>config :=
       default_config\<lparr>dry_run := True, max_file_size_mb := 10\<rparr>\<rparr>))
   \<and> 0 < max_file_size_mb (config (example_client\<lparr>config :=
       default_config\<lparr>dry_run := True, max_file_size_mb := 10\<rparr>\<rparr>))
   \<and> example_photo_info ''photo_obj'' = Some (VPhoto example_photo)
   \<and> example_photo_info ''filename'' = Some (VStr ''IMG_0001.JPG'')
   \<and> example_photo_info ''size'' = Some (VInt 15728640)
   \<and> max_file_size_mb (config (example_client\<lparr>config :=
       default_config\<lparr>dry_run := True, max_file_size_mb := 10\<rparr>\<rparr>)) * (1024 * 1024) < 15728640
   \<and> (15728640 < (2::int) ^ 53
        \<or> max_file_size_mb (config (example_client\<lparr>config :=
              default_config\<lparr>dry_run := True, max_file_size_mb := 10\<rparr>\<rparr>)) < 2 ^ 33)
   \<and> download_photo example_env
        (example_client\<lparr>config := default_config\<lparr>dry_run := True, max_file_size_mb := 10\<rparr>\<rparr>)
        example_photo_info ''/home/u/photos/IMG_0001.JPG'' example_world =
       (Inr False,
        log_add INFO (Skipping (VStr ''IMG_0001.JPG'') 15 10)
          (log_add DEBUG (Downloading (VStr ''IMG_0001.JPG'') ''/home/u/photos/IMG_0001.JPG'')
             example_world))"
proof -
  let ?c = "example_client\<lparr>config := default_config\<lparr>dry_run := True, max_file_size_mb := 10\<rparr>\<rparr>"
  have h1: "dry_run (config ?c)" by simp
  have h2: "0 < max_file_size_mb (config ?c)" by simp
  have h3: "example_photo_info ''photo_obj'' = Some (VPhoto example_photo)"
    by (simp add: example_photo_info_def)
  have h4: "example_photo_info ''filename'' = Some (VStr ''IMG_0001.JPG'')"
    by (simp add: example_photo_info_def)
  have h5: "example_photo_info ''size'' = Some (VInt 15728640)"
    by (simp add: example_photo_info_def)
  have h6: "max_file_size_mb (config ?c) * (1024 * 1024) < 15728640" by simp
  have h7: "15728640 < (2::int) ^ 53 \<or> max_file_size_mb (config ?c) < 2 ^ 33" by simp
  note T = download_photo_size_check_precedes_dry_run[where self = "?c"
      and photo_info = example_photo_info and n = 15728640 and env = example_env
      and photo = "VPhoto example_photo" and filename = "VStr ''IMG_0001.JPG''"
      and local_path = "''/home/u/photos/IMG_0001.JPG''" and w = example_world,
      OF h1 h2 h3 h4 h5 h6 h7]
  from T have r: "download_photo example_env ?c example_photo_info
        ''/home/u/photos/IMG_0001.JPG'' example_world =
       (Inr False,
        log_add INFO (Skipping (VStr ''IMG_0001.JPG'') 15 10)
          (log_add DEBUG (Downloading (VStr ''IMG_0001.JPG'') ''/home/u/photos/IMG_0001.JPG'')
             example_world))"
    by simp
  show ?thesis by (intro conjI) (fact h1 h2 h3 h4 h5 h6 h7 r)+
qed

section \<open>Database path resolution\<close>

text \<open>
  C6. On a platform other than Windows, \<open>database_path\<close> expands the environment variables
  of \<open>database_parent_directory\<close>, replaces the token \<open>%LOCALAPPDATA%\<close> by
  \<open>.local/share\<close> under the home directory, takes the result relative to
  \<open>sync_directory\<close> when it is not absolute, makes the directory and returns the path of
  \<open>deletion_tracker.db\<close> in it. Whenever the call returns, the directory exists
  afterwards and no existing entry of the file system has changed; otherwise it raises an
  \<open>OSError\<close>. The call returns when the directory exists already (the file system is then
  unchanged) and when only the directory itself is missing under a writable parent.
\<close>

theorem database_path_resolution:
  assumes "os_name env \<noteq> ''nt''"
  shows "let expanded = expandvars (environ env) (database_parent_directory self);
             mapped = str_replace ''%LOCALAPPDATA%'' (home env @ ''/.local/share'') expanded;
             dir = (if is_absolute (Path mapped) then Path mapped
                    else joinpath (sync_directory self) (Path mapped));
             dbfile = joinpath dir (Path ''deletion_tracker.db'')
         in (\<forall>r fs1. database_path self env fs = (r, fs1) \<longrightarrow>
               (r = Inr dbfile \<and> is_dir fs1 env dir \<or> (\<exists>k q. r = Inl (OSError k q)))
               \<and> (\<forall>k n. fs k = Some n \<longrightarrow> fs1 k = Some n))
          \<and> (is_dir fs env dir \<longrightarrow> database_path self env fs = (Inr dbfile, fs))
          \<and> (\<forall>k. locate fs env dir = Inr k \<and> node_at fs k = None
                  \<and> node_at fs (butlast k) = Some (Dir True) \<longrightarrow>
                  database_path self env fs = (Inr dbfile, fs(k \<mapsto> Dir True)))
          \<and> parent dbfile = dir
          \<and> parts dbfile = parts dir @ [''deletion_tracker.db'']
          \<and> anchor dbfile = anchor dir
          \<and> (\<not> is_absolute (Path mapped) \<longrightarrow>
                anchor dir = anchor (sync_directory self)
                \<and> parts dir = parts (sync_directory self) @ parts (Path mapped))"
proof -
  define mapped where "mapped = str_replace ''%LOCALAPPDATA%'' (home env @ ''/.local/share'')
                     (expandvars (environ env) (database_parent_directory self))"
  define dir where "dir = (if is_absolute (Path mapped) then Path mapped
                    else joinpath (sync_directory self) (Path mapped))"
  define dbfile where "dbfile = joinpath dir (Path ''deletion_tracker.db'')"
  have dp: "database_path self env fs =
      (case mkdir_parents fs env dir of
           (Inl e, fs1) \<Rightarrow> (Inl e, fs1)
         | (Inr u, fs1) \<Rightarrow> (Inr dbfile, fs1))"
    unfolding dbfile_def dir_def mapped_def
    using database_path_posix[OF assms, of self fs]
    by (simp add: Let_def)
  have a: "\<forall>r fs1. database_path self env fs = (r, fs1) \<longrightarrow>
               (r = Inr dbfile \<and> is_dir fs1 env dir \<or> (\<exists>k q. r = Inl (OSError k q)))
               \<and> (\<forall>k n. fs k = Some n \<longrightarrow> fs1 k = Some n)"
  proof (intro allI impI)
    fix r fs1
    assume eq: "database_path self env fs = (r, fs1)"
    obtain r' fs' where mk: "mkdir_parents fs env dir = (r', fs')"
      by (cases "mkdir_parents fs env dir")
    show "(r = Inr dbfile \<and> is_dir fs1 env dir \<or> (\<exists>k q. r = Inl (OSError k q)))
               \<and> (\<forall>k n. fs k = Some n \<longrightarrow> fs1 k = Some n)"
    proof (cases r')
      case (Inl e)
      with mk eq dp have "r = Inl e" "fs1 = fs'" by simp_all
      moreover from mk Inl obtain k q where "e = OSError k q"
        using mkdir_parents_raises by blast
      moreover have "\<forall>k n. fs k = Some n \<longrightarrow> fs' k = Some n"
        using mkdir_parents_keeps[OF mk] by blast
      ultimately show ?thesis by simp
    next
      case (Inr u)
      with mk eq dp have "r = Inr dbfile" "fs1 = fs'" by simp_all
      moreover from mk Inr have "is_dir fs' env dir" by (simp add: mkdir_parents_is_dir)
      moreover have "\<forall>k n. fs k = Some n \<longrightarrow> fs' k = Some n"
        using mkdir_parents_keeps[OF mk] by blast
      ultimately show ?thesis by simp
    qed
  qed
  have b: "is_dir fs env dir \<longrightarrow> database_path self env fs = (Inr dbfile, fs)"
    by (simp add: dp mkdir_parents_existing)
  have c: "\<forall>k. locate fs env dir = Inr k \<and> node_at fs k = None
                  \<and> node_at fs (butlast k) = Some (Dir True) \<longrightarrow>
                  database_path self env fs = (Inr dbfile, fs(k \<mapsto> Dir True))"
    by (simp add: dp mkdir_parents_missing)
  have d: "parent dbfile = dir" "parts dbfile = parts dir @ [''deletion_tracker.db'']"
    "anchor dbfile = anchor dir"
    using joinpath_file[of dir] by (simp_all add: dbfile_def)
  have e: "\<not> is_absolute (Path mapped) \<longrightarrow>
                anchor dir = anchor (sync_directory self)
                \<and> parts dir = parts (sync_directory self) @ parts (Path mapped)"
    by (simp add: dir_def joinpath_def)
  from a b c d e show ?thesis
    unfolding Let_def mapped_def[symmetric] dir_def[symmetric] dbfile_def[symmetric]
    by (intro conjI)
qed

theorem database_path_resolution_witness:
  "(os_name example_env \<noteq> ''nt''
   \<and> fst (database_path (default_config\<lparr>sync_directory := Path ''/home/u/photos''\<rparr>)
           example_env example_fs)
       = Inr (Path ''/home/u/photos/.data/deletion_tracker.db'')
   \<and> path_str (Path ''/home/u/photos/.data/deletion_tracker.db'')
       = ''/home/u/photos/.data/deletion_tracker.db''
   \<and> example_fs [''home'', ''u'', ''photos'', ''.data''] = None
   \<and> snd (database_path (default_config\<lparr>sync_directory := Path ''/home/u/photos''\<rparr>)
           example_env example_fs) [''home'', ''u'', ''photos'', ''.data''] = Some (Dir True))
   \<and> (fst (database_path (default_config\<lparr>database_parent_directory := ''%LOCALAPPDATA%/foto_pool''\<rparr>)
           example_env example_fs)
       = Inr (Path ''/home/u/.local/share/foto_pool/deletion_tracker.db'')
   \<and> is_dir (snd (database_path
                    (default_config\<lparr>database_parent_directory := ''%LOCALAPPDATA%/foto_pool''\<rparr>)
                    example_env example_fs))
         example_env (Path ''/home/u/.local/share/foto_pool''))"
proof -
  have part1: "os_name example_env \<noteq> ''nt''
   \<and> fst (database_path (default_config\<lparr>sync_directory := Path ''/home/u/photos''\<rparr>)
           example_env example_fs)
       = Inr (Path ''/home/u/photos/.data/deletion_tracker.db'')
   \<and> path_str (Path ''/home/u/photos/.data/deletion_tracker.db'')
       = ''/home/u/photos/.data/deletion_tracker.db''
   \<and> example_fs [''home'', ''u'', ''photos'', ''.data''] = None
   \<and> snd (database_path (default_config\<lparr>sync_directory := Path ''/home/u/photos''\<rparr>)
           example_env example_fs) [''home'', ''u'', ''photos'', ''.data''] = Some (Dir True)"
  proof -
    let ?c = "default_config\<lparr>sync_directory := Path ''/home/u/photos''\<rparr>"
    let ?k = "[''home'', ''u'', ''photos'', ''.data'']"
    have h: "os_name example_env \<noteq> ''nt''" by (simp add: example_env_def)
    have dir: "joinpath (Path ''/home/u/photos'') (Path ''.data'') = Path ''/home/u/photos/.data''"
      by (simp add: joinpath_def Path_def is_absolute_def)
    have fl: "joinpath (Path ''/home/u/photos/.data'') (Path ''deletion_tracker.db'')
                = Path ''/home/u/photos/.data/deletion_tracker.db''"
      by (simp add: joinpath_def Path_def is_absolute_def)
    have rel: "\<not> is_absolute (Path ''.data'')" by (simp add: Path_def is_absolute_def)
    have loc: "locate example_fs example_env (Path ''/home/u/photos/.data'') = Inr ?k"
      by (simp add: locate_def Path_def is_absolute_def node_at_def example_fs_def)
    have miss: "node_at example_fs ?k = None" by (simp add: node_at_def example_fs_def)
    have par: "node_at example_fs (butlast ?k) = Some (Dir True)"
      by (simp add: node_at_def example_fs_def)
    have str: "path_str (Path ''/home/u/photos/.data/deletion_tracker.db'')
         = ''/home/u/photos/.data/deletion_tracker.db''"
      by (simp add: path_str_def Path_def)
    have "database_path ?c example_env example_fs =
            (Inr (Path ''/home/u/photos/.data/deletion_tracker.db''),
             example_fs(?k \<mapsto> Dir True))"
      using database_path_resolution[OF h, of ?c example_fs] loc miss par rel
      by (simp add: Let_def default_config_def example_env_def expand_data replace_data dir fl)
    then have r: "fst (database_path ?c example_env example_fs)
                    = Inr (Path ''/home/u/photos/.data/deletion_tracker.db'')"
      and f: "snd (database_path ?c example_env example_fs) ?k = Some (Dir True)"
      by simp_all
    have n: "example_fs ?k = None" by (simp add: example_fs_def)
    show ?thesis by (intro conjI) (fact h r str n f)+
  qed
  have part2: "fst (database_path (default_config\<lparr>database_parent_directory := ''%LOCALAPPDATA%/foto_pool''\<rparr>)
           example_env example_fs)
       = Inr (Path ''/home/u/.local/share/foto_pool/deletion_tracker.db'')
   \<and> is_dir (snd (database_path
                    (default_config\<lparr>database_parent_directory := ''%LOCALAPPDATA%/foto_pool''\<rparr>)
                    example_env example_fs))
         example_env (Path ''/home/u/.local/share/foto_pool'')"
  proof -
    let ?c = "default_config\<lparr>database_parent_directory := ''%LOCALAPPDATA%/foto_pool''\<rparr>"
    let ?d = "Path ''/home/u/.local/share/foto_pool''"
    let ?f = "Path ''/home/u/.local/share/foto_pool/deletion_tracker.db''"
    have h: "os_name example_env \<noteq> ''nt''" by (simp add: example_env_def)
    have ab: "is_absolute ?d" by (simp add: Path_def is_absolute_def)
    have fl: "joinpath ?d (Path ''deletion_tracker.db'') = ?f"
      by (simp add: joinpath_def Path_def is_absolute_def)
    obtain r fs1 where dp: "database_path ?c example_env example_fs = (r, fs1)"
      by (cases "database_path ?c example_env example_fs")
    have alt: "r = Inr ?f \<and> is_dir fs1 example_env ?d \<or> (\<exists>k q. r = Inl (OSError k q))"
      using database_path_resolution[OF h, of ?c example_fs] dp ab
      by (simp add: Let_def example_env_def expand_local replace_local fl)
    obtain r' fs' where mk: "mkdir_parents example_fs example_env ?d = (r', fs')"
      by (cases "mkdir_parents example_fs example_env ?d")
    with mkdir_local_example have "r' = Inr ()" by simp
    with mk dp ab have "r = Inr ?f"
      using database_path_posix[OF h, of ?c example_fs]
      by (simp add: Let_def example_env_def expand_local replace_local fl)
    with alt have "r = Inr ?f \<and> is_dir fs1 example_env ?d" by simp
    with dp show ?thesis by simp
  qed
  from part1 part2 show ?thesis by (rule conjI)
qed

section \<open>Credential round trip\<close>




section \<open>Authentication returns a boolean\<close>

text \<open>
  C8. \<open>authenticate\<close> never raises: its result is always a boolean. The result is True exactly
  when both credentials are read and non-empty, the login succeeds and the \<open>photos\<close> property
  of the session is reached and true. A login that raises (bad credentials, an API error or
  anything else) gives False, and so does a session whose photo listing raises or is empty.
\<close>

theorem authenticate_never_raises:
  "(\<exists>b. fst (authenticate service self w) = Inr b)
   \<and> (fst (authenticate service self w) = Inr True \<longleftrightarrow>
        (\<exists>u p a. icloud_username (config self) (w_kr w) = Inr u \<and> u \<noteq> []
           \<and> icloud_password (config self) (w_kr w) = Inr p \<and> p \<noteq> []
           \<and> service u p = Inr a \<and> svc_photos a = Inr True))
   \<and> (\<forall>u p e. icloud_username (config self) (w_kr w) = Inr u
           \<and> icloud_password (config self) (w_kr w) = Inr p
           \<and> service u p = Inl e \<longrightarrow>
           fst (authenticate service self w) = Inr False)
   \<and> (\<forall>u p a. icloud_username (config self) (w_kr w) = Inr u
           \<and> icloud_password (config self) (w_kr w) = Inr p
           \<and> service u p = Inr a \<and> svc_photos a \<noteq> Inr True \<longrightarrow>
           fst (authenticate service self w) = Inr False)"
proof (intro conjI allI impI)
  show "\<exists>b. fst (authenticate service self w) = Inr b" by (rule authenticate_returns)
next
  show "fst (authenticate service self w) = Inr True \<longleftrightarrow>
        (\<exists>u p a. icloud_username (config self) (w_kr w) = Inr u \<and> u \<noteq> []
           \<and> icloud_password (config self) (w_kr w) = Inr p \<and> p \<noteq> []
           \<and> service u p = Inr a \<and> svc_photos a = Inr True)"
    unfolding authenticate_body_true_iff[symmetric] authenticate_fst
    by (simp split: sum.splits)
next
  fix u p e
  assume a: "icloud_username (config self) (w_kr w) = Inr u
           \<and> icloud_password (config self) (w_kr w) = Inr p
           \<and> service u p = Inl e"
  then have "fst (authenticate_body service self w) \<noteq> Inr True"
    by (simp add: authenticate_body_true_iff)
  then show "fst (authenticate service self w) = Inr False"
    by (auto simp: authenticate_fst split: sum.splits)
next
  fix u p a
  assume a: "icloud_username (config self) (w_kr w) = Inr u
           \<and> icloud_password (config self) (w_kr w) = Inr p
           \<and> service u p = Inr a \<and> svc_photos a \<noteq> Inr True"
  then have "fst (authenticate_body service self w) \<noteq> Inr True"
    by (simp add: authenticate_body_true_iff)
  then show "fst (authenticate service self w) = Inr False"
    by (auto simp: authenticate_fst split: sum.splits)
qed

theorem authenticate_never_raises_witness:
  "fst (authenticate (\<lambda>u p. Inl (PyiCloudFailedLoginException ''Invalid email/password''))
          example_client (example_world\<lparr>w_kr := alice_keyring\<rparr>)) = Inr False
   \<and> fst (authenticate (\<lambda>u p. Inr (example_session\<lparr>svc_photos :=
                                      Inl (PyiCloudAPIResponseException ''Service Unavailable'')\<rparr>))
          example_client (example_world\<lparr>w_kr := alice_keyring\<rparr>)) = Inr False
   \<and> fst (authenticate example_service example_client example_world) = Inr False
   \<and> fst (authenticate example_service example_client
            (example_world\<lparr>w_kr := alice_keyring\<rparr>)) = Inr True"
proof -
  let ?w = "example_world\<lparr>w_kr := alice_keyring\<rparr>"
  let ?bad = "\<lambda>u p. Inl (PyiCloudFailedLoginException ''Invalid email/password'')
                :: exc + PyiCloudService"
  let ?down = "example_session\<lparr>svc_photos :=
                 Inl (PyiCloudAPIResponseException ''Service Unavailable'')\<rparr>"
  have u: "icloud_username (config example_client) (w_kr ?w) = Inr ''alice''"
    and p: "icloud_password (config example_client) (w_kr ?w) = Inr ''s3cret''"
    by (simp_all add: example_client_def alice_credentials)
  have a: "fst (authenticate ?bad example_client ?w) = Inr False"
    using authenticate_never_raises[where service = ?bad and self = example_client and w = ?w]
      u p by simp
  have b: "fst (authenticate (\<lambda>u p. Inr ?down) example_client ?w) = Inr False"
    using authenticate_never_raises[where service = "\<lambda>u p. Inr ?down"
        and self = example_client and w = ?w] u p by simp
  have "icloud_username (config example_client) (w_kr example_world) \<noteq> Inr u" for u
    by (simp add: example_client_def example_world_def default_config_def icloud_username_def
        icloud_get_username_from_store_def get_password_def empty_keyring_def truthy_def)
  then have c: "fst (authenticate example_service example_client example_world) = Inr False"
    using authenticate_never_raises[where service = example_service
        and self = example_client and w = example_world] by auto
  have d: "fst (authenticate example_service example_client ?w) = Inr True"
    using authenticate_never_raises[where service = example_service
        and self = example_client and w = ?w] u p
    by (simp add: example_service_def example_session_def)
  from a b c d show ?thesis by simp
qed

section \<open>Second factor\<close>

text \<open>
  C9. \<open>handle_2fa\<close> never raises. Without a session it returns False and nothing else
  happens: no call to the remote service, no log entry. With a session it returns False
  when the remote service rejects the code and when the validation raises; it returns True
  exactly when a session exists and the service accepts the code.
\<close>

theorem handle_2fa_never_raises:
  "(\<exists>b. fst (handle_2fa self code w) = Inr b)
   \<and> (api self = None \<longrightarrow> handle_2fa self code w = (Inr False, w))
   \<and> (\<forall>a. api self = Some a \<and> svc_validate_2fa_code a code = Inr False \<longrightarrow>
          fst (handle_2fa self code w) = Inr False)
   \<and> (\<forall>a e. api self = Some a \<and> svc_validate_2fa_code a code = Inl e \<longrightarrow>
          fst (handle_2fa self code w) = Inr False)
   \<and> (fst (handle_2fa self code w) = Inr True \<longleftrightarrow>
        (\<exists>a. api self = Some a \<and> svc_validate_2fa_code a code = Inr True))"
  by (auto simp: handle_2fa_def Let_def split: option.splits sum.splits)

theorem handle_2fa_never_raises_witness:
  "handle_2fa example_client ''123456'' example_world = (Inr False, example_world)
   \<and> fst (handle_2fa (example_client\<lparr>api := Some example_session\<rparr>) ''000000''
            example_world) = Inr False
   \<and> fst (handle_2fa (example_client\<lparr>api := Some (example_session\<lparr>svc_validate_2fa_code :=
                 (\<lambda>code. Inl (PyiCloudAPIResponseException ''Service Unavailable''))\<rparr>)\<rparr>)
            ''123456'' example_world) = Inr False
   \<and> fst (handle_2fa (example_client\<lparr>api := Some example_session\<rparr>) ''123456''
            example_world) = Inr True"
proof -
  let ?s = "example_client\<lparr>api := Some example_session\<rparr>"
  let ?down = "example_session\<lparr>svc_validate_2fa_code :=
                 (\<lambda>code. Inl (PyiCloudAPIResponseException ''Service Unavailable''))\<rparr>"
  have a: "handle_2fa example_client ''123456'' example_world = (Inr False, example_world)"
    using handle_2fa_never_raises[where self = example_client and code = "''123456''"
        and w = example_world]
    by (simp add: example_client_def)
  have b: "fst (handle_2fa ?s ''000000'' example_world) = Inr False"
    using handle_2fa_never_raises[where self = ?s and code = "''000000''" and w = example_world]
    by (simp add: example_session_def)
  have c: "fst (handle_2fa (example_client\<lparr>api := Some ?down\<rparr>) ''123456'' example_world)
             = Inr False"
    using handle_2fa_never_raises[where self = "example_client\<lparr>api := Some ?down\<rparr>"
        and code = "''123456''" and w = example_world]
    by simp
  have d: "fst (handle_2fa ?s ''123456'' example_world) = Inr True"
    using handle_2fa_never_raises[where self = ?s and code = "''123456''" and w = example_world]
    by (simp add: example_session_def)
  from a b c d show ?thesis by simp
qed

section \<open>The result of a download is one boolean\<close>

text \<open>
  C10. \<open>download_photo\<close> always returns a boolean and never raises. The call that skips
  because the size check of the code finds the asset over the limit returns False, and so
  does every call for an asset over the limit whose size is below \<open>2^53\<close> bytes or whose
  limit is below \<open>2^33\<close> MB; a download that fails returns False as well. A dry run and a
  completed download both return True. So the caller cannot tell a skip from a failure, nor
  a dry run from a completed download, by the result.
\<close>

theorem download_photo_collapses_outcomes:
  "(\<exists>b. fst (download_photo env self photo_info local_path w) = Inr b)
   \<and> (0 < max_file_size_mb (config self)
        \<and> true_div (dict_get photo_info ''size'' (VInt 0)) (1024 * 1024) = Inr q
        \<and> of_int (max_file_size_mb (config self)) < q \<longrightarrow>
        fst (download_photo env self photo_info local_path w) = Inr False)
   \<and> (0 < max_file_size_mb (config self) \<and> photo_info ''size'' = Some (VInt n)
        \<and> max_file_size_mb (config self) * (1024 * 1024) < n
        \<and> (n < 2 ^ 53 \<or> max_file_size_mb (config self) < 2 ^ 33) \<longrightarrow>
        fst (download_photo env self photo_info local_path w) = Inr False)
   \<and> (photo_info ''photo_obj'' = Some (VPhoto ph) \<and> photo_info ''filename'' = Some filename
        \<and> (max_file_size_mb (config self) \<le> 0
             \<or> (\<exists>q. true_div (dict_get photo_info ''size'' (VInt 0)) (1024 * 1024) = Inr q
                     \<and> q \<le> of_int (max_file_size_mb (config self))))
        \<and> \<not> dry_run (config self) \<and> download ph = Inl e \<longrightarrow>
        fst (download_photo env self photo_info local_path w) = Inr False)
   \<and> (photo_info ''photo_obj'' = Some photo \<and> photo_info ''filename'' = Some filename
        \<and> (max_file_size_mb (config self) \<le> 0
             \<or> (\<exists>q. true_div (dict_get photo_info ''size'' (VInt 0)) (1024 * 1024) = Inr q
                     \<and> q \<le> of_int (max_file_size_mb (config self))))
        \<and> dry_run (config self) \<longrightarrow>
        fst (download_photo env self photo_info local_path w) = Inr True)
   \<and> (photo_info ''photo_obj'' = Some (VPhoto ph) \<and> photo_info ''filename'' = Some filename
        \<and> (max_file_size_mb (config self) \<le> 0
             \<or> (\<exists>q. true_div (dict_get photo_info ''size'' (VInt 0)) (1024 * 1024) = Inr q
                     \<and> q \<le> of_int (max_file_size_mb (config self))))
        \<and> \<not> dry_run (config self) \<and> download ph = Inr (Response (Inr bytes))
        \<and> open_wb (w_fs w) env local_path = Inr (k, fsn) \<longrightarrow>
        fst (download_photo env self photo_info local_path w) = Inr True
        \<and> w_fs (snd (download_photo env self photo_info local_path w)) = write_file fsn k bytes)"
proof (intro conjI impI)
  show "\<exists>b. fst (download_photo env self photo_info local_path w) = Inr b"
    by (rule download_photo_returns)
next
  assume "0 < max_file_size_mb (config self)
        \<and> true_div (dict_get photo_info ''size'' (VInt 0)) (1024 * 1024) = Inr q
        \<and> of_int (max_file_size_mb (config self)) < q"
  then show "fst (download_photo env self photo_info local_path w) = Inr False"
    using download_photo_skip_result[of self photo_info q env local_path w] by simp
next
  assume "0 < max_file_size_mb (config self) \<and> photo_info ''size'' = Some (VInt n)
        \<and> max_file_size_mb (config self) * (1024 * 1024) < n
        \<and> (n < 2 ^ 53 \<or> max_file_size_mb (config self) < 2 ^ 33)"
  then show "fst (download_photo env self photo_info local_path w) = Inr False"
    using download_photo_over_limit_result[of self photo_info n env local_path w] by simp
next
  assume a: "photo_info ''photo_obj'' = Some (VPhoto ph) \<and> photo_info ''filename'' = Some filename
        \<and> (max_file_size_mb (config self) \<le> 0
             \<or> (\<exists>q. true_div (dict_get photo_info ''size'' (VInt 0)) (1024 * 1024) = Inr q
                     \<and> q \<le> of_int (max_file_size_mb (config self))))
        \<and> \<not> dry_run (config self) \<and> download ph = Inl e"
  then have "download_photo_body env self photo_info local_path w =
           fetch_and_write env (VPhoto ph) filename local_path
             (log_add DEBUG (Downloading filename local_path) w)"
    using download_photo_body_within_limit[of photo_info "VPhoto ph" filename self env local_path w]
    by simp
  with a show "fst (download_photo env self photo_info local_path w) = Inr False"
    by (simp add: download_photo_def fetch_and_write_def Let_def)
next
  assume a: "photo_info ''photo_obj'' = Some photo \<and> photo_info ''filename'' = Some filename
        \<and> (max_file_size_mb (config self) \<le> 0
             \<or> (\<exists>q. true_div (dict_get photo_info ''size'' (VInt 0)) (1024 * 1024) = Inr q
                     \<and> q \<le> of_int (max_file_size_mb (config self))))
        \<and> dry_run (config self)"
  then have "download_photo_body env self photo_info local_path w =
           (Inr True,
            log_add INFO (DryRun filename local_path)
              (log_add DEBUG (Downloading filename local_path) w))"
    using download_photo_body_within_limit[of photo_info photo filename self env local_path w]
    by simp
  then show "fst (download_photo env self photo_info local_path w) = Inr True"
    by (simp add: download_photo_def)
next
  assume a: "photo_info ''photo_obj'' = Some (VPhoto ph) \<and> photo_info ''filename'' = Some filename
        \<and> (max_file_size_mb (config self) \<le> 0
             \<or> (\<exists>q. true_div (dict_get photo_info ''size'' (VInt 0)) (1024 * 1024) = Inr q
                     \<and> q \<le> of_int (max_file_size_mb (config self))))
        \<and> \<not> dry_run (config self) \<and> download ph = Inr (Response (Inr bytes))
        \<and> open_wb (w_fs w) env local_path = Inr (k, fsn)"
  then have b: "download_photo_body env self photo_info local_path w =
           fetch_and_write env (VPhoto ph) filename local_path
             (log_add DEBUG (Downloading filename local_path) w)"
    using download_photo_body_within_limit[of photo_info "VPhoto ph" filename self env local_path w]
    by simp
  from a b show "fst (download_photo env self photo_info local_path w) = Inr True"
    by (simp add: download_photo_def fetch_and_write_def Let_def)
  from a b show "w_fs (snd (download_photo env self photo_info local_path w)) = write_file fsn k bytes"
    by (simp add: download_photo_def fetch_and_write_def Let_def)
qed

theorem download_photo_collapses_outcomes_witness:
  "fst (download_photo example_env
          (example_client\<lparr>config := default_config\<lparr>max_file_size_mb := 10\<rparr>\<rparr>)
          example_photo_info ''/home/u/photos/IMG_0001.JPG'' example_world) = Inr False
   \<and> fst (download_photo example_env example_client
          (example_photo_info(''photo_obj'' \<mapsto>
             VPhoto (example_photo\<lparr>download := Inl (OtherException ''timed out'')\<rparr>)))
          ''/home/u/photos/IMG_0001.JPG'' example_world) = Inr False
   \<and> fst (download_photo example_env
          (example_client\<lparr>config := default_config\<lparr>dry_run := True\<rparr>\<rparr>)
          example_photo_info ''/home/u/photos/IMG_0001.JPG'' example_world) = Inr True
   \<and> fst (download_photo example_env example_client
          example_photo_info ''/home/u/photos/IMG_0001.JPG'' example_world) = Inr True
   \<and> w_fs (snd (download_photo example_env example_client
          example_photo_info ''/home/u/photos/IMG_0001.JPG'' example_world))
        [''home'', ''u'', ''photos'', ''IMG_0001.JPG''] = Some (File True ''JPEGDATA'')"
proof -
  let ?p = "''/home/u/photos/IMG_0001.JPG''"
  let ?k = "[''home'', ''u'', ''photos'', ''IMG_0001.JPG'']"
  let ?bad = "example_photo\<lparr>download := Inl (OtherException ''timed out'')\<rparr>"
  have skip: "fst (download_photo example_env
          (example_client\<lparr>config := default_config\<lparr>max_file_size_mb := 10\<rparr>\<rparr>)
          example_photo_info ?p example_world) = Inr False"
    using download_photo_collapses_outcomes[where self =
        "example_client\<lparr>config := default_config\<lparr>max_file_size_mb := 10\<rparr>\<rparr>"
        and photo_info = example_photo_info and q = 15 and env = example_env
        and local_path = ?p and w = example_world]
      example_photo_quotient
    by simp
  have failed: "fst (download_photo example_env example_client
          (example_photo_info(''photo_obj'' \<mapsto> VPhoto ?bad)) ?p example_world) = Inr False"
    using download_photo_collapses_outcomes[where self = example_client
        and photo_info = "example_photo_info(''photo_obj'' \<mapsto> VPhoto ?bad)"
        and ph = ?bad and filename = "VStr ''IMG_0001.JPG''"
        and e = "OtherException ''timed out''" and env = example_env
        and local_path = ?p and w = example_world]
    by (simp add: example_photo_info_def example_client_def default_config_def)
  have dry: "fst (download_photo example_env
          (example_client\<lparr>config := default_config\<lparr>dry_run := True\<rparr>\<rparr>)
          example_photo_info ?p example_world) = Inr True"
    using download_photo_collapses_outcomes[where self =
        "example_client\<lparr>config := default_config\<lparr>dry_run := True\<rparr>\<rparr>"
        and photo_info = example_photo_info and photo = "VPhoto example_photo"
        and filename = "VStr ''IMG_0001.JPG''" and env = example_env
        and local_path = ?p and w = example_world]
    by (simp add: example_photo_info_def example_client_def default_config_def)
  have completed: "fst (download_photo example_env example_client example_photo_info ?p
                example_world) = Inr True
        \<and> w_fs (snd (download_photo example_env example_client example_photo_info ?p
                example_world)) =
            write_file (example_fs(?k \<mapsto> File True [])) ?k ''JPEGDATA''"
    using download_photo_collapses_outcomes[where self = example_client
        and photo_info = example_photo_info and ph = example_photo
        and filename = "VStr ''IMG_0001.JPG''" and bytes = "''JPEGDATA''"
        and k = ?k and fsn = "example_fs(?k \<mapsto> File True [])" and env = example_env
        and local_path = ?p and w = example_world]
      open_example
    by (simp add: example_photo_info_def example_client_def default_config_def
        example_photo_def example_world_def)
  then have written: "w_fs (snd (download_photo example_env example_client example_photo_info ?p
                example_world)) ?k = Some (File True ''JPEGDATA'')"
    by (simp add: write_file_def)
  from skip failed dry completed written show ?thesis by simp
qed

end
